theory Spec2Isabelle
  imports Complex_Main "HOL-Library.AList"
begin

section \<open>Tabular data\<close>

text \<open>
  A cell of a pandas DataFrame as \<^verbatim>\<open>models.py\<close> meets it: a missing value (NaN), a number or a
  string. Numbers are exact rationals: rounding, infinities and overflow of the machine
  floats are outside the model. Column labels are cells too, because
  \<^verbatim>\<open>robust_clean_data\<close> takes the labels from the first data row. Looking a label up
  (\<^verbatim>\<open>df[col]\<close>, \<^verbatim>\<open>var in df.columns\<close>) compares labels as values, NaN equal to NaN as in
  pandas' label tables; Python's own \<^verbatim>\<open>!=\<close> on two labels is \<open>py_ne\<close> below.
\<close>

datatype cell = Null | Num rat | Str string

text \<open>
  A DataFrame: its column labels (duplicates allowed, as in pandas) and its rows. pandas
  keeps every row as long as the label list; \<open>rect\<close> states it.
\<close>

record frame =
  columns :: "cell list"
  rows :: "cell list list"

definition rect :: "frame \<Rightarrow> bool" where
  "rect df = list_all (\<lambda>r. length r = length (columns df)) (rows df)"

datatype error = IndexError | KeyError | TypeError | ValueError

text \<open>
  The library functions the module calls but does not define. \<open>parse_number\<close> is the string
  parser inside \<^verbatim>\<open>pd.to_numeric\<close>, \<open>str_number\<close> is Python's \<^verbatim>\<open>str\<close> on a number,
  \<open>grangercausalitytests\<close> is the statsmodels primitive (\<open>Inl\<close> carries the text of the
  exception it raised, \<open>Inr\<close> the p-value of \<^verbatim>\<open>ssr_ftest\<close> for each lag), \<open>random_normal\<close> draws
  one Gaussian sample from the generator state \<open>'r\<close>.
\<close>

record 'r library =
  parse_number :: "string \<Rightarrow> rat option"
  str_number :: "rat \<Rightarrow> string"
  grangercausalitytests :: "frame \<Rightarrow> int \<Rightarrow> string + (int \<Rightarrow> rat)"
  np_mean :: "rat list \<Rightarrow> rat"
  np_std :: "rat list \<Rightarrow> rat"
  random_normal :: "rat \<Rightarrow> rat \<Rightarrow> 'r \<Rightarrow> rat \<times> 'r"

subsection \<open>The pandas operations used\<close>

text \<open>Keeping the positions a boolean mask selects (\<^verbatim>\<open>df.loc[:, mask]\<close>).\<close>

definition mask_keep :: "bool list \<Rightarrow> 'a list \<Rightarrow> 'a list" where
  "mask_keep m xs = map snd (filter fst (zip m xs))"

text \<open>\<^verbatim>\<open>df.dropna(axis=1, how="all")\<close>: a column stays when some row has a value in it. With no
  row, no column stays.\<close>

definition dropna_all_columns :: "frame \<Rightarrow> frame" where
  "dropna_all_columns df =
     (let m = map (\<lambda>j. list_ex (\<lambda>r. j < length r \<and> r ! j \<noteq> Null) (rows df))
                  [0..<length (columns df)]
      in \<lparr>columns = mask_keep m (columns df), rows = map (mask_keep m) (rows df)\<rparr>)"

text \<open>\<^verbatim>\<open>df.dropna()\<close>, that is \<^verbatim>\<open>df.dropna(axis=0, how="any")\<close>.\<close>

definition dropna :: "frame \<Rightarrow> frame" where
  "dropna df = \<lparr>columns = columns df, rows = filter (\<lambda>r. Null \<notin> set r) (rows df)\<rparr>"

text \<open>\<^verbatim>\<open>df.rename(columns={old: new})\<close>: every label equal to \<open>old\<close> is replaced. The
  dictionary finds a NaN label by the identity of the object, which a frame of cells does
  not record: here all NaN labels are renamed with a NaN \<open>old\<close>, and the statements that
  depend on it are made for sheets with at most one NaN label.\<close>

definition rename :: "cell \<Rightarrow> cell \<Rightarrow> frame \<Rightarrow> frame" where
  "rename old new df =
     \<lparr>columns = map (\<lambda>c. if c = old then new else c) (columns df), rows = rows df\<rparr>"

text \<open>The cells of one row under a label (all of them, when the label is duplicated).\<close>

definition cells_at :: "cell list \<Rightarrow> cell list \<Rightarrow> cell \<Rightarrow> cell list" where
  "cells_at cols r l = map snd (filter (\<lambda>p. fst p = l) (zip cols r))"

text \<open>\<^verbatim>\<open>df.dropna(subset=[l])\<close>.\<close>

definition dropna_subset :: "cell \<Rightarrow> frame \<Rightarrow> frame" where
  "dropna_subset l df =
     \<lparr>columns = columns df,
      rows = filter (\<lambda>r. Null \<notin> set (cells_at (columns df) r l)) (rows df)\<rparr>"

text \<open>\<^verbatim>\<open>df[l] = f(df[l])\<close> for an elementwise \<open>f\<close>, where \<open>l\<close> labels one column.\<close>

definition map_column :: "(cell \<Rightarrow> cell) \<Rightarrow> cell \<Rightarrow> frame \<Rightarrow> frame" where
  "map_column f l df =
     \<lparr>columns = columns df,
      rows = map (\<lambda>r. map (\<lambda>p. if fst p = l then f (snd p) else snd p) (zip (columns df) r))
                 (rows df)\<rparr>"

text \<open>\<^verbatim>\<open>df[ls]\<close> for a list of labels that all occur in \<open>df\<close>: for each label in turn, the
  columns it names.\<close>

definition select_columns :: "frame \<Rightarrow> cell list \<Rightarrow> frame" where
  "select_columns df ls =
     \<lparr>columns = concat (map (\<lambda>l. filter (\<lambda>c. c = l) (columns df)) ls),
      rows = map (\<lambda>r. concat (map (cells_at (columns df) r) ls)) (rows df)\<rparr>"

text \<open>\<^verbatim>\<open>pd.to_numeric(..., errors="coerce")\<close> on one cell: what does not parse becomes NaN.\<close>

definition to_numeric :: "'r library \<Rightarrow> cell \<Rightarrow> cell" where
  "to_numeric L c =
     (case c of
        Null \<Rightarrow> Null
      | Num q \<Rightarrow> Num q
      | Str s \<Rightarrow> (case parse_number L s of None \<Rightarrow> Null | Some q \<Rightarrow> Num q))"

text \<open>\<^verbatim>\<open>.astype(int)\<close> on one cell: a number is truncated towards zero. The column holds only
  numbers where the source calls it (its NaN rows were dropped the line before).\<close>

definition truncate :: "rat \<Rightarrow> int" where
  "truncate q = (if 0 \<le> q then \<lfloor>q\<rfloor> else \<lceil>q\<rceil>)"

definition astype_int :: "cell \<Rightarrow> cell" where
  "astype_int c = (case c of Num q \<Rightarrow> Num (of_int (truncate q)) | _ \<Rightarrow> c)"

section \<open>Data cleaning\<close>

text \<open>
  The loop of \<^verbatim>\<open>robust_clean_data\<close> (lines 50 to 55) over the labels after the first. With a
  label that names one column, \<^verbatim>\<open>df_cleaned[col]\<close> is a Series, \<^verbatim>\<open>pd.to_numeric\<close> coerces it
  and the label is appended. With a duplicated label \<^verbatim>\<open>df_cleaned[col]\<close> is a DataFrame,
  \<^verbatim>\<open>pd.to_numeric\<close> raises TypeError, and the \<^verbatim>\<open>except\<close> branch skips the label.
\<close>

fun coerce_columns ::
  "'r library \<Rightarrow> cell list \<Rightarrow> frame \<Rightarrow> cell list \<Rightarrow> frame \<times> cell list" where
  "coerce_columns L [] df numeric_columns = (df, numeric_columns)"
| "coerce_columns L (col # cols) df numeric_columns =
     (if count_list (columns df) col = 1
      then coerce_columns L cols (map_column (to_numeric L) col df) (numeric_columns @ [col])
      else coerce_columns L cols df numeric_columns)"

text \<open>
  \<^verbatim>\<open>robust_clean_data\<close> (lines 39 to 58). \<^verbatim>\<open>df.iloc[0]\<close> raises IndexError on a frame without
  rows; \<^verbatim>\<open>df_cleaned.columns[0]\<close> raises IndexError when no column is left;
  \<^verbatim>\<open>pd.to_numeric(df_cleaned["Year"])\<close> raises TypeError when more than one column is labelled
  \<^verbatim>\<open>Year\<close> after the renaming, because the selection is then a DataFrame.
\<close>

definition robust_clean_data :: "'r library \<Rightarrow> frame \<Rightarrow> error + frame" where
  "robust_clean_data L df =
     (case rows df of
        [] \<Rightarrow> Inl IndexError
      | header # body \<Rightarrow>
          (let d1 = \<lparr>columns = header, rows = body\<rparr>;
               d2 = dropna_all_columns d1;
               d3 = dropna d2
           in case columns d3 of
                [] \<Rightarrow> Inl IndexError
              | c0 # _ \<Rightarrow>
                  (let d4 = rename c0 (Str ''Year'') d3
                   in if count_list (columns d4) (Str ''Year'') \<noteq> 1 then Inl TypeError
                      else
                        (let d5 = map_column (to_numeric L) (Str ''Year'') d4;
                             d6 = dropna_subset (Str ''Year'') d5;
                             d7 = map_column astype_int (Str ''Year'') d6;
                             res = coerce_columns L (tl (columns d7)) d7 [Str ''Year'']
                         in Inr (dropna (select_columns (fst res) (snd res)))))))"

section \<open>Validation\<close>

text \<open>\<^verbatim>\<open>validate_data\<close> (lines 61 to 62).\<close>

definition validate_data :: "frame \<Rightarrow> int \<Rightarrow> bool" where
  "validate_data df min_rows = (int (length (rows (dropna df))) \<ge> min_rows)"

section \<open>Causality analysis\<close>

text \<open>Python's \<^verbatim>\<open>!=\<close> on two labels: NaN differs from everything, itself included.\<close>

definition py_ne :: "cell \<Rightarrow> cell \<Rightarrow> bool" where
  "py_ne a b = (a \<noteq> b \<or> a = Null)"

text \<open>A label inside an f-string.\<close>

definition label_str :: "'r library \<Rightarrow> cell \<Rightarrow> string" where
  "label_str L c = (case c of Null \<Rightarrow> ''nan'' | Num q \<Rightarrow> str_number L q | Str s \<Rightarrow> s)"

text \<open>The dictionary key \<^verbatim>\<open>f"{var1} causes {var2}"\<close>.\<close>

definition pair_key :: "'r library \<Rightarrow> cell \<Rightarrow> cell \<Rightarrow> string" where
  "pair_key L var1 var2 = label_str L var1 @ '' causes '' @ label_str L var2"

text \<open>\<^verbatim>\<open>round(x, 4)\<close> on an exact number: to the nearest multiple of 1/10000, ties to even.\<close>

definition py_round4 :: "rat \<Rightarrow> rat" where
  "py_round4 x =
     (let y = x * 10000; f = \<lfloor>y\<rfloor>; d = y - of_int f
      in of_int (if d < 1 / 2 then f else if 1 / 2 < d then f + 1
                 else if even f then f else f + 1) / 10000)"

text \<open>One pair's result: the p-values by lag, or the text \<^verbatim>\<open>f"Error: {e}"\<close>.\<close>

datatype causality_result = PValues "rat list" | CausalityError string

text \<open>
  The \<^verbatim>\<open>try\<close> statement of lines 12 to 19. \<open>var1\<close> and \<open>var2\<close> are labels of \<open>data\<close>, so the
  selection \<^verbatim>\<open>data[[var1, var2]]\<close> itself finds them; every exception of the primitive is
  caught.
\<close>

definition test_pair :: "'r library \<Rightarrow> frame \<Rightarrow> int \<Rightarrow> cell \<Rightarrow> cell \<Rightarrow> causality_result" where
  "test_pair L data max_lag var1 var2 =
     (case grangercausalitytests L (select_columns data [var1, var2]) max_lag of
        Inl e \<Rightarrow> CausalityError (''Error: '' @ e)
      | Inr test_result \<Rightarrow> PValues (map (\<lambda>lag. py_round4 (test_result lag)) [1..max_lag]))"

text \<open>The body of the inner loop (lines 11 to 19); assigning to a dictionary key is
  \<open>AList.update\<close>: a new key goes last, an old key keeps its place.\<close>

definition record_pair ::
  "'r library \<Rightarrow> frame \<Rightarrow> int \<Rightarrow> cell \<Rightarrow> cell \<Rightarrow>
   (string \<times> causality_result) list \<Rightarrow> (string \<times> causality_result) list" where
  "record_pair L data max_lag var1 var2 results =
     (if py_ne var1 var2
      then AList.update (pair_key L var1 var2) (test_pair L data max_lag var1 var2) results
      else results)"

text \<open>\<^verbatim>\<open>granger_causality_analysis\<close> (lines 6 to 20).\<close>

definition granger_causality_analysis ::
  "'r library \<Rightarrow> frame \<Rightarrow> int \<Rightarrow> (string \<times> causality_result) list" where
  "granger_causality_analysis L data max_lag =
     (let variables = tl (columns data)
      in fold (\<lambda>var1. fold (\<lambda>var2. record_pair L data max_lag var1 var2) variables)
              variables [])"

section \<open>Monte Carlo simulation\<close>

text \<open>\<^verbatim>\<open>np.random.normal(mean, std_dev, n)\<close>: \<open>n\<close> draws, threading the generator.\<close>

fun normal_row :: "'r library \<Rightarrow> rat \<Rightarrow> rat \<Rightarrow> nat \<Rightarrow> 'r \<Rightarrow> rat list \<times> 'r" where
  "normal_row L m s 0 g = ([], g)"
| "normal_row L m s (Suc n) g =
     (case random_normal L m s g of
        (x, g1) \<Rightarrow> (case normal_row L m s n g1 of (xs, g2) \<Rightarrow> (x # xs, g2)))"

text \<open>The loop of lines 30 to 32: one row of the matrix per trial.\<close>

fun fill_simulations ::
  "'r library \<Rightarrow> rat \<Rightarrow> rat \<Rightarrow> nat \<Rightarrow> nat \<Rightarrow> 'r \<Rightarrow> rat list list \<times> 'r" where
  "fill_simulations L m s 0 period g = ([], g)"
| "fill_simulations L m s (Suc k) period g =
     (case normal_row L m s period g of
        (row, g1) \<Rightarrow> (case fill_simulations L m s k period g1 of
                        (others, g2) \<Rightarrow> (row # others, g2)))"

text \<open>\<^verbatim>\<open>np.mean(simulations, axis=0)\<close> and \<^verbatim>\<open>np.std(simulations, axis=0)\<close>: one value per
  column of the matrix, whose width is \<open>period\<close>.\<close>

definition along_axis0 :: "(rat list \<Rightarrow> rat) \<Rightarrow> nat \<Rightarrow> rat list list \<Rightarrow> rat list" where
  "along_axis0 f period simulations =
     map (\<lambda>j. f (map (\<lambda>row. row ! j) simulations)) [0..<period]"

text \<open>The numbers of an array for \<^verbatim>\<open>np.mean\<close> and \<^verbatim>\<open>np.std\<close>: they raise TypeError on an
  array that holds a string.\<close>

definition num_of :: "cell \<Rightarrow> rat option" where
  "num_of c = (case c of Num q \<Rightarrow> Some q | _ \<Rightarrow> None)"

definition numbers_of :: "cell list \<Rightarrow> error + rat list" where
  "numbers_of cs =
     (if list_all (\<lambda>c. num_of c \<noteq> None) cs then Inr (map (\<lambda>c. the (num_of c)) cs)
      else Inl TypeError)"

text \<open>
  \<^verbatim>\<open>data[variable].dropna().values\<close>: KeyError when no column has the label. With a
  duplicated label the selection is a DataFrame and the values are its complete rows.
\<close>

definition historical_data :: "frame \<Rightarrow> cell \<Rightarrow> error + cell list list" where
  "historical_data data variable =
     (if variable \<in> set (columns data)
      then Inr (rows (dropna (select_columns data [variable])))
      else Inl KeyError)"

text \<open>
  \<^verbatim>\<open>monte_carlo_simulation\<close> (lines 23 to 36). \<open>None\<close> is the triple
  \<^verbatim>\<open>(None, None, None)\<close>. \<^verbatim>\<open>np.zeros\<close> raises ValueError on a negative dimension.
\<close>

definition monte_carlo_simulation ::
  "'r library \<Rightarrow> frame \<Rightarrow> cell \<Rightarrow> int \<Rightarrow> int \<Rightarrow> 'r \<Rightarrow>
   error + ((rat list list \<times> rat list \<times> rat list) option \<times> 'r)" where
  "monte_carlo_simulation L data variable num_simulations forecast_period g =
     (case historical_data data variable of
        Inl e \<Rightarrow> Inl e
      | Inr hist \<Rightarrow>
          if length hist < 2 then Inr (None, g)
          else
            (case numbers_of (concat hist) of
               Inl e \<Rightarrow> Inl e
             | Inr hs \<Rightarrow>
                 (let mean = np_mean L hs; std_dev = np_std L hs
                  in if num_simulations < 0 \<or> forecast_period < 0 then Inl ValueError
                     else
                       (case fill_simulations L mean std_dev (nat num_simulations)
                               (nat forecast_period) g of
                          (simulations, g1) \<Rightarrow>
                            Inr (Some (simulations,
                                       along_axis0 (np_mean L) (nat forecast_period) simulations,
                                       along_axis0 (np_std L) (nat forecast_period) simulations),
                                 g1)))))"

section \<open>The pipeline\<close>

datatype simulation_result =
  Simulation "rat list list" "rat list" "rat list"
| SimulationMarker string

datatype sheet_result =
  SheetError string
| SheetAnalysis "(string \<times> causality_result) list" "(string \<times> simulation_result) list"

text \<open>The loop of lines 114 to 126 over \<^verbatim>\<open>key_variables\<close>.\<close>

fun simulate_variables ::
  "'r library \<Rightarrow> frame \<Rightarrow> int \<Rightarrow> int \<Rightarrow> string list \<Rightarrow>
   (string \<times> simulation_result) list \<Rightarrow> 'r \<Rightarrow>
   error + ((string \<times> simulation_result) list \<times> 'r)" where
  "simulate_variables L data num_simulations forecast_period [] results g = Inr (results, g)"
| "simulate_variables L data num_simulations forecast_period (var # vars) results g =
     (if Str var \<in> set (columns data)
      then
        (case monte_carlo_simulation L data (Str var) num_simulations forecast_period g of
           Inl e \<Rightarrow> Inl e
         | Inr (Some (simulations, forecast_mean, forecast_std_dev), g1) \<Rightarrow>
             simulate_variables L data num_simulations forecast_period vars
               (AList.update var (Simulation simulations forecast_mean forecast_std_dev) results)
               g1
         | Inr (None, g1) \<Rightarrow>
             simulate_variables L data num_simulations forecast_period vars
               (AList.update var (SimulationMarker ''Insufficient data for simulation'') results)
               g1)
      else simulate_variables L data num_simulations forecast_period vars results g)"

text \<open>The body of the loop over the sheets (lines 104 to 131): the sheet's result and the
  generator state after it.\<close>

definition analyze_sheet ::
  "'r library \<Rightarrow> string list \<Rightarrow> int \<Rightarrow> int \<Rightarrow> int \<Rightarrow> frame \<Rightarrow> 'r \<Rightarrow>
   error + (sheet_result \<times> 'r)" where
  "analyze_sheet L key_variables max_lag num_simulations forecast_period df g =
     (case robust_clean_data L df of
        Inl e \<Rightarrow> Inl e
      | Inr cleaned_data \<Rightarrow>
          if \<not> validate_data cleaned_data 10
          then Inr (SheetError ''Insufficient data for analysis'', g)
          else
            (let causality_results = granger_causality_analysis L cleaned_data max_lag
             in case simulate_variables L cleaned_data num_simulations forecast_period
                       key_variables [] g of
                  Inl e \<Rightarrow> Inl e
                | Inr (simulation_results, g1) \<Rightarrow>
                    Inr (SheetAnalysis causality_results simulation_results, g1)))"

text \<open>The loop of \<^verbatim>\<open>analyze_sheets\<close> over \<^verbatim>\<open>sheets_data.items()\<close>, the items in insertion
  order; an exception of a sheet ends the run.\<close>

fun analyze_loop ::
  "'r library \<Rightarrow> string list \<Rightarrow> int \<Rightarrow> int \<Rightarrow> int \<Rightarrow> (string \<times> frame) list \<Rightarrow>
   (string \<times> sheet_result) list \<Rightarrow> 'r \<Rightarrow> error + ((string \<times> sheet_result) list \<times> 'r)" where
  "analyze_loop L key_variables max_lag num_simulations forecast_period [] results g =
     Inr (results, g)"
| "analyze_loop L key_variables max_lag num_simulations forecast_period ((sheet, df) # rest)
     results g =
     (case analyze_sheet L key_variables max_lag num_simulations forecast_period df g of
        Inl e \<Rightarrow> Inl e
      | Inr (r, g1) \<Rightarrow>
          analyze_loop L key_variables max_lag num_simulations forecast_period rest
            (AList.update sheet r results) g1)"

text \<open>\<^verbatim>\<open>analyze_sheets\<close> (lines 101 to 132).\<close>

definition analyze_sheets ::
  "'r library \<Rightarrow> (string \<times> frame) list \<Rightarrow> string list \<Rightarrow> int \<Rightarrow> int \<Rightarrow> int \<Rightarrow> 'r \<Rightarrow>
   error + ((string \<times> sheet_result) list \<times> 'r)" where
  "analyze_sheets L sheets_data key_variables max_lag num_simulations forecast_period g =
     analyze_loop L key_variables max_lag num_simulations forecast_period sheets_data [] g"

section \<open>A concrete library\<close>

text \<open>
  An instance of the library interface on which the definitions above compute, for the
  examples: the parser reads unsigned decimal numerals, the causality primitive raises
  when the sub-frame has too few rows for the lag depth, the mean is exact, the deviation
  is the zero of a constant series, the generator is a counter, and a number is printed
  as \<^verbatim>\<open>0\<close> (no example prints a label that is a number). The theorems hold for every
  instance.
\<close>

definition digit_of :: "char \<Rightarrow> int option" where
  "digit_of c =
     map_of [(CHR ''0'', 0), (CHR ''1'', 1), (CHR ''2'', 2), (CHR ''3'', 3), (CHR ''4'', 4),
             (CHR ''5'', 5), (CHR ''6'', 6), (CHR ''7'', 7), (CHR ''8'', 8), (CHR ''9'', 9)] c"

definition parse_digits :: "string \<Rightarrow> rat option" where
  "parse_digits s =
     (if s = [] then None
      else map_option of_int
             (foldl (\<lambda>acc c. case (acc, digit_of c) of
                                (Some a, Some d) \<Rightarrow> Some (10 * a + d)
                              | _ \<Rightarrow> None)
                    (Some 0) s))"

definition few_rows_test :: "frame \<Rightarrow> int \<Rightarrow> string + (int \<Rightarrow> rat)" where
  "few_rows_test sub max_lag =
     (if max_lag < 1 \<or> int (length (rows sub)) < 3 * max_lag + 2
      then Inl ''Insufficient observations''
      else Inr (\<lambda>lag. 1 / of_int (lag + 1)))"

definition sample_library :: "nat library" where
  "sample_library =
     \<lparr>parse_number = parse_digits,
      str_number = (\<lambda>q. ''0''),
      grangercausalitytests = few_rows_test,
      np_mean = (\<lambda>xs. sum_list xs / of_nat (length xs)),
      np_std = (\<lambda>xs. 0),
      random_normal = (\<lambda>m s g. (m + s * of_nat g, Suc g))\<rparr>"

section \<open>The cleaned-frame invariant\<close>

text \<open>A number without a fractional part.\<close>

definition is_int_cell :: "cell \<Rightarrow> bool" where
  "is_int_cell c = (case c of Num q \<Rightarrow> q = of_int \<lfloor>q\<rfloor> | _ \<Rightarrow> False)"

text \<open>
  What the data model says of a CleanedFrame: the first column is \<^verbatim>\<open>Year\<close>, the labels are
  distinct, every cell is a number, and the \<^verbatim>\<open>Year\<close> cells are integers.
\<close>

definition cleaned :: "frame \<Rightarrow> bool" where
  "cleaned c =
     (columns c \<noteq> [] \<and> hd (columns c) = Str ''Year'' \<and> distinct (columns c) \<and> rect c \<and>
      list_all (\<lambda>r. list_all (\<lambda>x. num_of x \<noteq> None) r \<and> is_int_cell (hd r)) (rows c))"

text \<open>The labels of a sheet after lines 40 to 44: the first row, without the columns that
  are empty below it, the first of them (and every label equal to it) renamed.\<close>

definition labels_after_renaming :: "frame \<Rightarrow> cell list" where
  "labels_after_renaming df =
     (let d2 = dropna_all_columns \<lparr>columns = hd (rows df), rows = tl (rows df)\<rparr>
      in columns (rename (hd (columns d2)) (Str ''Year'') d2))"

section \<open>The pairs of the causality analysis\<close>

text \<open>The pairs the two loops of \<^verbatim>\<open>granger_causality_analysis\<close> test, in their order.\<close>

definition tested_pairs :: "cell list \<Rightarrow> (cell \<times> cell) list" where
  "tested_pairs vs = concat (map (\<lambda>a. map (Pair a) (filter (py_ne a) vs)) vs)"

text \<open>The ordered pairs of two different variables, as the specification counts them.\<close>

definition ordered_pairs :: "cell list \<Rightarrow> (cell \<times> cell) list" where
  "ordered_pairs vs = concat (map (\<lambda>a. map (Pair a) (filter (\<lambda>b. a \<noteq> b) vs)) vs)"

section \<open>Example sheets\<close>

definition two_values :: frame where
  "two_values =
     \<lparr>columns = [Str ''Year'', Str ''Occupied units''],
      rows = [[Num 2000, Num 1], [Num 2001, Num 3]]\<rparr>"

definition single_value :: frame where
  "single_value =
     \<lparr>columns = [Str ''Year'', Str ''Occupied units''],
      rows = [[Num 2000, Num 5], [Num 2001, Null]]\<rparr>"

text \<open>A sheet with labels and no row, and a sheet with a text column.\<close>

definition header_only :: frame where
  "header_only = \<lparr>columns = [Str ''Housing'', Str ''Unnamed: 1''], rows = []\<rparr>"

definition text_sheet :: frame where
  "text_sheet =
     \<lparr>columns = [Str ''Housing'', Str ''Unnamed: 1''],
      rows = [[Str ''Date'', Str ''Name''], [Num 2000, Str ''abc'']]\<rparr>"

text \<open>A sheet with numerals as text and a fractional year.\<close>

definition mixed_sheet :: frame where
  "mixed_sheet =
     \<lparr>columns = [Str ''Housing'', Str ''Unnamed: 1''],
      rows = [[Str ''Date'', Str ''A''], [Num 2000, Str ''12''], [Str ''2001'', Num (5 / 2)],
              [Num (4003 / 2), Num 7]]\<rparr>"

definition mixed_cleaned :: frame where
  "mixed_cleaned =
     \<lparr>columns = [Str ''Year'', Str ''A''],
      rows = [[Num 2000, Num 12], [Num 2001, Num (5 / 2)], [Num 2001, Num 7]]\<rparr>"

text \<open>Cleaned frames for the causality analysis: two variables; a label that contains the
  words of the key; a column without a label.\<close>

definition two_variables :: frame where
  "two_variables =
     \<lparr>columns = [Str ''Year'', Str ''a'', Str ''b''],
      rows = [[Num 2000, Num 1, Num 2], [Num 2001, Num 2, Num 4]]\<rparr>"

definition colliding_labels :: frame where
  "colliding_labels =
     \<lparr>columns = [Str ''Year'', Str ''a'', Str ''a causes a''],
      rows = [[Num 2000, Num 1, Num 2], [Num 2001, Num 2, Num 4]]\<rparr>"

definition missing_label :: frame where
  "missing_label = \<lparr>columns = [Str ''Year'', Null], rows = [[Num 2000, Num 1]]\<rparr>"

text \<open>A sheet whose second header cell is blank; its cleaned frame is \<open>missing_label\<close>.\<close>

definition blank_header :: frame where
  "blank_header =
     \<lparr>columns = [Str ''Housing'', Str ''Unnamed: 1''],
      rows = [[Str ''Date'', Null], [Num 2000, Num 1]]\<rparr>"

definition one_variable :: frame where
  "one_variable =
     \<lparr>columns = [Str ''Year'', Str ''a''], rows = [[Num 2000, Num 1], [Num 2001, Num 2]]\<rparr>"

text \<open>A library whose causality primitive raises when the first of the two columns is
  \<^verbatim>\<open>a\<close>, so for one direction of a pair only.\<close>

definition one_way_test :: "frame \<Rightarrow> int \<Rightarrow> string + (int \<Rightarrow> rat)" where
  "one_way_test sub max_lag =
     (if hd (columns sub) = Str ''a'' then Inl ''singular matrix''
      else Inr (\<lambda>lag. 1 / 100))"

definition one_way_library :: "nat library" where
  "one_way_library = sample_library\<lparr>grangercausalitytests := one_way_test\<rparr>"

text \<open>A sheet as the module's main program expects it: a title row read as the labels, the
  real header in the first row, ten years of two variables.\<close>

definition housing_sheet :: frame where
  "housing_sheet =
     \<lparr>columns = [Str ''Housing'', Str ''Unnamed: 1'', Str ''Unnamed: 2''],
      rows = [[Str ''Date'', Str ''Total housing units'', Str ''Occupied units''],
              [Num 2000, Num 100, Num 90], [Num 2001, Num 102, Num 91],
              [Num 2002, Num 104, Num 93], [Num 2003, Num 107, Num 94],
              [Num 2004, Num 109, Num 97], [Num 2005, Num 110, Num 98],
              [Num 2006, Num 114, Num 99], [Num 2007, Num 115, Num 103],
              [Num 2008, Num 119, Num 104], [Num 2009, Num 120, Num 108]]\<rparr>"

section \<open>Facts about the frame operations\<close>

lemma mask_keep_length:
  "length (mask_keep m xs) = length (filter (\<lambda>b. b) (take (length xs) m))"
proof (induction m arbitrary: xs)
  case Nil
  show ?case by (simp add: mask_keep_def)
next
  case (Cons b m)
  show ?case
  proof (cases xs)
    case Nil
    then show ?thesis by (simp add: mask_keep_def)
  next
    case (Cons x xs')
    then show ?thesis using Cons.IH [of xs'] by (simp add: mask_keep_def)
  qed
qed

lemma mask_keep_all:
  "length m = length xs \<Longrightarrow> list_all (\<lambda>b. b) m \<Longrightarrow> mask_keep m xs = xs"
  by (induction m xs rule: list_induct2) (simp_all add: mask_keep_def)

lemma mask_keep_nth:
  "j < length m \<Longrightarrow> j < length xs \<Longrightarrow> m ! j \<Longrightarrow> xs ! j \<in> set (mask_keep m xs)"
proof -
  assume a: "j < length m" "j < length xs" "m ! j"
  then have "(m ! j, xs ! j) \<in> set (zip m xs)"
    by (metis in_set_conv_nth length_zip min_less_iff_conj nth_zip)
  then have "(m ! j, xs ! j) \<in> set (filter fst (zip m xs))" using a by simp
  then show ?thesis unfolding mask_keep_def by force
qed

lemma mask_keep_subset: "set (mask_keep m xs) \<subseteq> set xs"
  unfolding mask_keep_def by (auto dest: set_zip_rightD)

lemma mask_keep_distinct: "distinct xs \<Longrightarrow> distinct (mask_keep m xs)"
  unfolding mask_keep_def
proof (induction m arbitrary: xs)
  case Nil
  show ?case by simp
next
  case (Cons b m)
  show ?case
  proof (cases xs)
    case Nil
    then show ?thesis by simp
  next
    case (Cons x xs')
    have "x \<notin> set (map snd (filter fst (zip m xs')))"
      using Cons.prems Cons by (auto dest: set_zip_rightD)
    then show ?thesis using Cons.IH [of xs'] Cons.prems Cons by simp
  qed
qed

lemma filter_eq_replicate: "filter (\<lambda>c. c = l) cols = replicate (count_list cols l) l"
  by (induction cols) auto

lemma cells_at_length:
  "length r = length cols \<Longrightarrow> length (cells_at cols r l) = count_list cols l"
  unfolding cells_at_def by (induction r cols rule: list_induct2) auto

lemma cells_at_subset: "set (cells_at cols r l) \<subseteq> set r"
  unfolding cells_at_def by (auto dest: set_zip_rightD)

lemma zip_map_zip:
  "zip cols (map g (zip cols r)) = map (\<lambda>p. (fst p, g p)) (zip cols r)"
proof (induction cols arbitrary: r)
  case Nil
  show ?case by simp
next
  case (Cons c cols)
  show ?case by (cases r) (simp_all add: Cons.IH)
qed

lemma cells_at_map:
  "cells_at cols (map (\<lambda>p. if Q (fst p) then f (snd p) else snd p) (zip cols r)) l =
     map (\<lambda>x. if Q l then f x else x) (cells_at cols r l)"
  unfolding cells_at_def zip_map_zip by (induction "zip cols r") (auto simp: filter_map o_def)

lemma to_numeric_idem: "to_numeric L (to_numeric L x) = to_numeric L x"
  by (auto simp: to_numeric_def split: cell.splits option.splits)

lemma coerce_columns_fst_columns:
  "columns (fst (coerce_columns L cs df nc)) = columns df"
  by (induction cs arbitrary: df nc) (simp_all add: map_column_def)

lemma coerce_columns_snd:
  "snd (coerce_columns L cs df nc) = nc @ filter (\<lambda>l. count_list (columns df) l = 1) cs"
  by (induction cs arbitrary: df nc) (simp_all add: map_column_def)

lemma map_snd_zip_rect: "length r = length cols \<Longrightarrow> map snd (zip cols r) = r"
  by (simp add: map_snd_zip)

lemma coerce_columns_rows:
  "rect df \<Longrightarrow>
   rows (fst (coerce_columns L cs df nc)) =
     map (\<lambda>r. map (\<lambda>p. if fst p \<in> set cs \<and> count_list (columns df) (fst p) = 1
                          then to_numeric L (snd p) else snd p) (zip (columns df) r))
         (rows df)"
proof (induction cs arbitrary: df nc)
  case Nil
  have "map (\<lambda>r. map snd (zip (columns df) r)) (rows df) = rows df"
    using Nil by (induction "rows df") (auto simp: rect_def list_all_iff map_snd_zip map_idI)
  then show ?case by simp
next
  case (Cons c cs)
  show ?case
  proof (cases "count_list (columns df) c = 1")
    case False
    have "(\<lambda>p::cell \<times> cell. if fst p \<in> set (c # cs) \<and> count_list (columns df) (fst p) = 1
                 then to_numeric L (snd p) else snd p) =
          (\<lambda>p. if fst p \<in> set cs \<and> count_list (columns df) (fst p) = 1
                 then to_numeric L (snd p) else snd p)"
      using False by auto
    then show ?thesis using False Cons.IH [OF Cons.prems, of nc] by simp
  next
    case True
    let ?df = "map_column (to_numeric L) c df"
    have r: "rect ?df" using Cons.prems
      by (auto simp: rect_def map_column_def list_all_iff)
    have cols: "columns ?df = columns df" by (simp add: map_column_def)
    have "rows (fst (coerce_columns L cs ?df (nc @ [c]))) =
          map (\<lambda>r. map (\<lambda>p. if fst p \<in> set cs \<and> count_list (columns df) (fst p) = 1
                          then to_numeric L (snd p) else snd p) (zip (columns df) r))
         (rows ?df)"
      using Cons.IH [OF r, of "nc @ [c]"] cols by simp
    also have "\<dots> = map (\<lambda>r. map (\<lambda>p. if fst p \<in> set (c # cs) \<and> count_list (columns df) (fst p) = 1
                          then to_numeric L (snd p) else snd p) (zip (columns df) r))
         (rows df)"
      using True by (auto simp: map_column_def zip_map_zip to_numeric_idem)
    finally show ?thesis using True by simp
  qed
qed

lemma map_row_head:
  assumes "l \<notin> set cs" "length xs = length cs"
  shows "map (\<lambda>p. if fst p = l then f (snd p) else snd p) (zip (l # cs) (y # xs)) = f y # xs"
proof -
  have "map (\<lambda>p. if fst p = l then f (snd p) else snd p) (zip cs xs) = map snd (zip cs xs)"
    using assms(1) by (auto dest: set_zip_leftD)
  then show ?thesis using assms(2) by (simp add: map_snd_zip)
qed

lemma cells_at_head: "l \<notin> set cs \<Longrightarrow> cells_at (l # cs) (y # xs) l = [y]"
  unfolding cells_at_def by (auto simp: filter_empty_conv dest: set_zip_leftD)

lemma rect_row: "rect d \<Longrightarrow> r \<in> set (rows d) \<Longrightarrow> length r = length (columns d)"
  by (simp add: rect_def list_all_iff)

lemma rect_row_Cons:
  assumes "rect d" "columns d = l # cs" "r \<in> set (rows d)"
  obtains y xs where "r = y # xs" "length xs = length cs"
proof -
  have "length r = Suc (length cs)" using rect_row [OF assms(1,3)] assms(2) by simp
  then show ?thesis using that by (cases r) auto
qed

lemma astype_int_of_numeric:
  "to_numeric L x \<noteq> Null \<Longrightarrow> is_int_cell (astype_int (to_numeric L x))"
  by (auto simp: to_numeric_def astype_int_def is_int_cell_def split: cell.splits option.splits)

text \<open>Lines 45 to 47 on a frame whose first label is the only \<open>Year\<close>.\<close>

lemma year_column:
  fixes L :: "'r library" and d :: frame
  assumes "rect d" "columns d = Str ''Year'' # cs" "Str ''Year'' \<notin> set cs"
  defines "d7 \<equiv> map_column astype_int (Str ''Year'')
                   (dropna_subset (Str ''Year'') (map_column (to_numeric L) (Str ''Year'') d))"
  shows "rect d7" and "columns d7 = Str ''Year'' # cs"
    and "\<forall>r \<in> set (rows d7). is_int_cell (hd r)"
    and "\<forall>r \<in> set (rows d7). \<exists>r0 \<in> set (rows d). tl r = tl r0"
proof -
  show c: "columns d7 = Str ''Year'' # cs"
    by (simp add: d7_def map_column_def dropna_subset_def assms(2))
  show "rect d7"
    using assms(1) by (auto simp: d7_def rect_def map_column_def dropna_subset_def list_all_iff)
  have rows: "\<exists>r0 \<in> set (rows d). to_numeric L (hd r0) \<noteq> Null \<and>
                r = astype_int (to_numeric L (hd r0)) # tl r0"
    if "r \<in> set (rows d7)" for r
  proof -
    from that obtain r5 where r5: "r5 \<in> set (rows (map_column (to_numeric L) (Str ''Year'') d))"
      "Null \<notin> set (cells_at (Str ''Year'' # cs) r5 (Str ''Year''))"
      "r = map (\<lambda>p. if fst p = Str ''Year'' then astype_int (snd p) else snd p)
                (zip (Str ''Year'' # cs) r5)"
      by (auto simp: d7_def map_column_def dropna_subset_def assms(2))
    from r5(1) obtain r0 where r0: "r0 \<in> set (rows d)"
      "r5 = map (\<lambda>p. if fst p = Str ''Year'' then to_numeric L (snd p) else snd p)
                (zip (Str ''Year'' # cs) r0)"
      by (auto simp: map_column_def assms(2))
    obtain y xs where yx: "r0 = y # xs" "length xs = length cs"
      using rect_row_Cons [OF assms(1,2) r0(1)] by blast
    have e5: "r5 = to_numeric L y # xs"
      using r0(2) yx map_row_head [OF assms(3) yx(2)] by simp
    have nn: "to_numeric L y \<noteq> Null"
      using r5(2) e5 cells_at_head [OF assms(3)] by auto
    have "r = astype_int (to_numeric L y) # xs"
      using r5(3) e5 map_row_head [OF assms(3) yx(2)] by simp
    then have "to_numeric L (hd r0) \<noteq> Null \<and> r = astype_int (to_numeric L (hd r0)) # tl r0"
      using yx nn by simp
    then show ?thesis using r0(1) by blast
  qed
  show "\<forall>r \<in> set (rows d7). is_int_cell (hd r)"
    using rows astype_int_of_numeric by fastforce
  show "\<forall>r \<in> set (rows d7). \<exists>r0 \<in> set (rows d). tl r = tl r0"
    using rows by fastforce
qed

lemma concat_singletons:
  "\<forall>l \<in> set nc. count_list cols l = 1 \<Longrightarrow>
   concat (map (\<lambda>l. filter (\<lambda>c. c = l) cols) nc) = nc"
  by (induction nc) (simp_all add: filter_eq_replicate)

lemma length_concat_singletons:
  "\<forall>l \<in> set nc. length (f l) = 1 \<Longrightarrow> length (concat (map f nc)) = length nc"
  by (induction nc) simp_all

lemma distinct_filter_count:
  "distinct (filter (\<lambda>l. count_list (pre @ xs) l = 1) xs)"
proof (induction xs arbitrary: pre)
  case Nil
  show ?case by simp
next
  case (Cons x xs)
  have ih: "distinct (filter (\<lambda>l. count_list (pre @ x # xs) l = 1) xs)"
    using Cons.IH [of "pre @ [x]"] by simp
  have "x \<notin> set xs" if "count_list (pre @ x # xs) x = 1"
  proof
    assume "x \<in> set xs"
    then have "count_list xs x \<noteq> 0" by (simp add: count_list_0_iff)
    then show False using that by simp
  qed
  then show ?case using ih by auto
qed

lemma to_numeric_cases: "to_numeric L x = Null \<or> num_of (to_numeric L x) \<noteq> None"
  by (auto simp: to_numeric_def num_of_def split: cell.splits option.splits)

lemma is_int_cell_num: "is_int_cell x \<Longrightarrow> num_of x \<noteq> None"
  by (auto simp: is_int_cell_def num_of_def split: cell.splits)

text \<open>Lines 49 to 58 on a frame whose first label is the only \<open>Year\<close> and whose \<open>Year\<close>
  cells are integers.\<close>

lemma finish_cleaned:
  fixes L :: "'r library" and d7 :: frame
  assumes r7: "rect d7" and c7: "columns d7 = Str ''Year'' # cs"
    and y: "Str ''Year'' \<notin> set cs"
    and i7: "\<forall>r \<in> set (rows d7). is_int_cell (hd r)"
  defines "res \<equiv> coerce_columns L cs d7 [Str ''Year'']"
  shows "columns (dropna (select_columns (fst res) (snd res))) =
           Str ''Year'' # filter (\<lambda>l. count_list (Str ''Year'' # cs) l = 1) cs"
    and "cleaned (dropna (select_columns (fst res) (snd res)))"
proof -
  let ?Y = "Str ''Year''"
  let ?cols = "?Y # cs"
  let ?nc = "?Y # filter (\<lambda>l. count_list ?cols l = 1) cs"
  let ?Q = "\<lambda>c. c \<in> set cs \<and> count_list ?cols c = 1"
  let ?g = "\<lambda>p. if ?Q (fst p) then to_numeric L (snd p) else snd p"
  have nc: "snd res = ?nc" by (simp add: res_def coerce_columns_snd c7)
  have cols: "columns (fst res) = ?cols" by (simp add: res_def coerce_columns_fst_columns c7)
  have rows8: "rows (fst res) = map (\<lambda>r. map ?g (zip ?cols r)) (rows d7)"
    using coerce_columns_rows [OF r7, of L cs "[?Y]"] by (simp add: res_def c7)
  have cnt: "\<forall>l \<in> set ?nc. count_list ?cols l = 1" using y by auto
  show fc: "columns (dropna (select_columns (fst res) (snd res))) = ?nc"
    using concat_singletons [OF cnt] by (simp add: dropna_def select_columns_def nc cols)
  have dist: "distinct ?nc"
    using distinct_filter_count [of "[?Y]" cs] y by simp
  have row: "length (concat (map (cells_at ?cols r8) ?nc)) = length ?nc \<and>
             is_int_cell (hd (concat (map (cells_at ?cols r8) ?nc))) \<and>
             (\<forall>x \<in> set (concat (map (cells_at ?cols r8) ?nc)). x = Null \<or> num_of x \<noteq> None)"
    if "r8 \<in> set (rows (fst res))" for r8
  proof -
    from that obtain r where r: "r \<in> set (rows d7)" "r8 = map ?g (zip ?cols r)"
      using rows8 by auto
    obtain y0 xs where yx: "r = y0 # xs" "length xs = length cs"
      using rect_row_Cons [OF r7 c7 r(1)] by blast
    have len8: "length r8 = length ?cols" using r(2) yx by simp
    have "\<forall>l \<in> set ?nc. length (cells_at ?cols r8 l) = 1"
      using cnt cells_at_length [OF len8] by simp
    then have len: "length (concat (map (cells_at ?cols r8) ?nc)) = length ?nc"
      by (rule length_concat_singletons)
    have at: "cells_at ?cols r8 l = map (\<lambda>x. if ?Q l then to_numeric L x else x)
                                       (cells_at ?cols r l)" for l
      unfolding r(2) by (rule cells_at_map)
    have "cells_at ?cols r8 ?Y = [y0]"
      using at [of ?Y] y yx cells_at_head [OF y, of y0 xs] by simp
    then have hd: "hd (concat (map (cells_at ?cols r8) ?nc)) = y0" by simp
    have int: "is_int_cell y0" using i7 r(1) yx by auto
    have cellsY: "\<forall>x \<in> set (cells_at ?cols r8 ?Y). x = Null \<or> num_of x \<noteq> None"
      using \<open>cells_at ?cols r8 ?Y = [y0]\<close> int is_int_cell_num by simp
    have cellsU: "\<forall>x \<in> set (cells_at ?cols r8 l). x = Null \<or> num_of x \<noteq> None"
      if "l \<in> set (filter (\<lambda>l. count_list ?cols l = 1) cs)" for l
      using that at [of l] to_numeric_cases [of L] by auto
    have "x = Null \<or> num_of x \<noteq> None"
      if "x \<in> set (concat (map (cells_at ?cols r8) ?nc))" for x
    proof -
      from that obtain l where l: "l \<in> set ?nc" "x \<in> set (cells_at ?cols r8 l)" by auto
      show ?thesis
      proof (cases "l = ?Y")
        case True
        then show ?thesis using cellsY l(2) by blast
      next
        case False
        then have "l \<in> set (filter (\<lambda>l. count_list ?cols l = 1) cs)" using l(1) by simp
        then show ?thesis using cellsU l(2) by blast
      qed
    qed
    then show ?thesis using len hd int by blast
  qed
  have fin: "\<exists>r8 \<in> set (rows (fst res)). r = concat (map (cells_at ?cols r8) ?nc) \<and>
               Null \<notin> set r"
    if "r \<in> set (rows (dropna (select_columns (fst res) (snd res))))" for r
  proof -
    have "rows (dropna (select_columns (fst res) (snd res))) =
            filter (\<lambda>r. Null \<notin> set r)
              (map (\<lambda>r8. concat (map (cells_at ?cols r8) ?nc)) (rows (fst res)))"
      unfolding dropna_def select_columns_def nc cols by simp
    then show ?thesis using that by auto
  qed
  have c1: "rect (dropna (select_columns (fst res) (snd res)))"
    unfolding rect_def list_all_iff
  proof
    fix r assume "r \<in> set (rows (dropna (select_columns (fst res) (snd res))))"
    then obtain r8 where "r8 \<in> set (rows (fst res))" "r = concat (map (cells_at ?cols r8) ?nc)"
      using fin by blast
    then have "length r = length ?nc" using row by blast
    then show "length r = length (columns (dropna (select_columns (fst res) (snd res))))"
      unfolding fc .
  qed
  have c2: "list_all (\<lambda>r. list_all (\<lambda>x. num_of x \<noteq> None) r \<and> is_int_cell (hd r))
              (rows (dropna (select_columns (fst res) (snd res))))"
    unfolding list_all_iff
  proof
    fix r assume "r \<in> set (rows (dropna (select_columns (fst res) (snd res))))"
    then obtain r8 where r8: "r8 \<in> set (rows (fst res))"
      "r = concat (map (cells_at ?cols r8) ?nc)" "Null \<notin> set r"
      using fin by blast
    have "\<forall>x \<in> set r. x = Null \<or> num_of x \<noteq> None" using row [OF r8(1)] r8(2) by blast
    then have "\<forall>x \<in> set r. num_of x \<noteq> None" using r8(3) by metis
    then show "(\<forall>x\<in>set r. num_of x \<noteq> None) \<and> is_int_cell (hd r)"
      using row [OF r8(1)] r8(2) by blast
  qed
  show "cleaned (dropna (select_columns (fst res) (snd res)))"
    unfolding cleaned_def using fc dist c1 c2 by simp
qed

lemma rect_dropna_all_columns: "rect d \<Longrightarrow> rect (dropna_all_columns d)"
  by (auto simp: rect_def dropna_all_columns_def Let_def list_all_iff mask_keep_length)

lemma rect_dropna: "rect d \<Longrightarrow> rect (dropna d)"
  by (auto simp: rect_def dropna_def list_all_iff)

lemma rect_rename: "rect d \<Longrightarrow> rect (rename a b d)"
  by (auto simp: rect_def rename_def list_all_iff)

lemma rect_promote:
  "rect df \<Longrightarrow> rows df = header # body \<Longrightarrow> rect \<lparr>columns = header, rows = body\<rparr>"
  by (auto simp: rect_def list_all_iff)

text \<open>The stages of \<^verbatim>\<open>robust_clean_data\<close> when it returns.\<close>

lemma robust_clean_data_Inr:
  assumes "robust_clean_data L df = Inr c"
  obtains header body c0 cs3 d3 d7 where
    "rows df = header # body"
    "d3 = dropna (dropna_all_columns \<lparr>columns = header, rows = body\<rparr>)"
    "columns d3 = c0 # cs3"
    "count_list (columns (rename c0 (Str ''Year'') d3)) (Str ''Year'') = 1"
    "d7 = map_column astype_int (Str ''Year'')
            (dropna_subset (Str ''Year'')
               (map_column (to_numeric L) (Str ''Year'') (rename c0 (Str ''Year'') d3)))"
    "c = dropna (select_columns (fst (coerce_columns L (tl (columns d7)) d7 [Str ''Year'']))
                                (snd (coerce_columns L (tl (columns d7)) d7 [Str ''Year''])))"
  using assms unfolding robust_clean_data_def Let_def
  by (auto split: list.splits if_splits)

lemma renamed_columns:
  assumes "columns d3 = c0 # cs3"
    and "count_list (columns (rename c0 (Str ''Year'') d3)) (Str ''Year'') = 1"
  shows "columns (rename c0 (Str ''Year'') d3) =
           Str ''Year'' # map (\<lambda>c. if c = c0 then Str ''Year'' else c) cs3"
    and "Str ''Year'' \<notin> set (map (\<lambda>c. if c = c0 then Str ''Year'' else c) cs3)"
proof -
  show e: "columns (rename c0 (Str ''Year'') d3) =
           Str ''Year'' # map (\<lambda>c. if c = c0 then Str ''Year'' else c) cs3"
    using assms(1) by (simp add: rename_def)
  have "count_list (map (\<lambda>c. if c = c0 then Str ''Year'' else c) cs3) (Str ''Year'') = 0"
    using assms(2) unfolding e by simp
  then show "Str ''Year'' \<notin> set (map (\<lambda>c. if c = c0 then Str ''Year'' else c) cs3)"
    using count_list_0_iff by fastforce
qed

lemma robust_clean_data_cleaned:
  assumes "rect df" and "robust_clean_data L df = Inr c"
  shows "cleaned c"
proof -
  obtain header body c0 cs3 d3 d7 where s:
    "rows df = header # body"
    "d3 = dropna (dropna_all_columns \<lparr>columns = header, rows = body\<rparr>)"
    "columns d3 = c0 # cs3"
    "count_list (columns (rename c0 (Str ''Year'') d3)) (Str ''Year'') = 1"
    "d7 = map_column astype_int (Str ''Year'')
            (dropna_subset (Str ''Year'')
               (map_column (to_numeric L) (Str ''Year'') (rename c0 (Str ''Year'') d3)))"
    "c = dropna (select_columns (fst (coerce_columns L (tl (columns d7)) d7 [Str ''Year'']))
                                (snd (coerce_columns L (tl (columns d7)) d7 [Str ''Year''])))"
    using robust_clean_data_Inr [OF assms(2)] by metis
  let ?cs = "map (\<lambda>c. if c = c0 then Str ''Year'' else c) cs3"
  have r4: "rect (rename c0 (Str ''Year'') d3)"
    unfolding s(2)
    by (intro rect_rename rect_dropna rect_dropna_all_columns rect_promote [OF assms(1) s(1)])
  note c4 = renamed_columns [OF s(3,4)]
  note y = year_column [OF r4 c4, of L, folded s(5)]
  have "tl (columns d7) = ?cs" using y(2) by simp
  then show ?thesis
    using finish_cleaned(2) [OF y(1) y(2) c4(2) y(3), of L] s(6) by simp
qed


lemma inner_loop_pairs:
  "fold (\<lambda>var2. record_pair L data max_lag var1 var2) ws results =
   fold (\<lambda>p. AList.update (pair_key L (fst p) (snd p))
                 (test_pair L data max_lag (fst p) (snd p)))
        (map (Pair var1) (filter (py_ne var1) ws)) results"
  by (induction ws arbitrary: results) (simp_all add: record_pair_def)

lemma outer_loop_pairs:
  "fold (\<lambda>var1. fold (\<lambda>var2. record_pair L data max_lag var1 var2) vs) us results =
   fold (\<lambda>p. AList.update (pair_key L (fst p) (snd p))
                 (test_pair L data max_lag (fst p) (snd p)))
        (concat (map (\<lambda>a. map (Pair a) (filter (py_ne a) vs)) us)) results"
  by (induction us arbitrary: results) (simp_all add: inner_loop_pairs)

lemma granger_causality_analysis_pairs:
  "granger_causality_analysis L data max_lag =
   fold (\<lambda>p. AList.update (pair_key L (fst p) (snd p))
                 (test_pair L data max_lag (fst p) (snd p)))
        (tested_pairs (tl (columns data))) []"
  by (simp add: granger_causality_analysis_def Let_def outer_loop_pairs tested_pairs_def)

lemma update_fresh: "k \<notin> fst ` set al \<Longrightarrow> AList.update k v al = al @ [(k, v)]"
  by (induction al) auto

lemma fold_update_fresh:
  "distinct (map kf ps) \<Longrightarrow> kf ` set ps \<inter> fst ` set acc = {} \<Longrightarrow>
   fold (\<lambda>p. AList.update (kf p) (vf p)) ps acc = acc @ map (\<lambda>p. (kf p, vf p)) ps"
proof (induction ps arbitrary: acc)
  case Nil
  show ?case by simp
next
  case (Cons p ps)
  have fresh: "kf p \<notin> fst ` set acc" using Cons.prems(2) by auto
  have "kf ` set ps \<inter> fst ` set (acc @ [(kf p, vf p)]) = {}"
    using Cons.prems by auto
  then have "fold (\<lambda>p. AList.update (kf p) (vf p)) ps (acc @ [(kf p, vf p)]) =
             (acc @ [(kf p, vf p)]) @ map (\<lambda>p. (kf p, vf p)) ps"
    using Cons.IH [of "acc @ [(kf p, vf p)]"] Cons.prems(1) by simp
  then show ?case using update_fresh [OF fresh] by simp
qed

lemma fold_update_keys:
  "fst ` set (fold (\<lambda>p. AList.update (kf p) (vf p)) ps acc) = fst ` set acc \<union> kf ` set ps"
  by (induction ps arbitrary: acc) (auto simp: dom_update)

lemma map_of_fold_update:
  "map_of (fold (\<lambda>p. AList.update (kf p) (vf p)) ps acc) =
   map_of acc ++ map_of (rev (map (\<lambda>p. (kf p, vf p)) ps))"
proof (induction ps arbitrary: acc)
  case Nil
  show ?case by simp
next
  case (Cons p ps)
  let ?M = "map_of (rev (map (\<lambda>p. (kf p, vf p)) ps))"
  have "map_of (fold (\<lambda>p. AList.update (kf p) (vf p)) (p # ps) acc) =
        map_of (AList.update (kf p) (vf p) acc) ++ ?M"
    using Cons.IH [of "AList.update (kf p) (vf p) acc"] by simp
  also have "\<dots> = (map_of acc)(kf p \<mapsto> vf p) ++ ?M"
    by (simp only: update_conv')
  also have "\<dots> = map_of acc ++ ([kf p \<mapsto> vf p] ++ ?M)"
    by (auto simp: fun_eq_iff map_add_def split: option.splits)
  also have "[kf p \<mapsto> vf p] ++ ?M = map_of (rev (map (\<lambda>p. (kf p, vf p)) (p # ps)))"
    by simp
  finally show ?case .
qed

lemma map_of_unique:
  assumes "(k, v) \<in> set xs" and "\<forall>v'. (k, v') \<in> set xs \<longrightarrow> v' = v"
  shows "map_of xs k = Some v"
proof -
  obtain y where y: "map_of xs k = Some y" using weak_map_of_SomeI [OF assms(1)] by blast
  then have "(k, y) \<in> set xs" by (rule map_of_SomeD)
  then show ?thesis using assms(2) y by simp
qed

lemma own_entry:
  assumes "p \<in> set ps" and "\<forall>q \<in> set ps. kf q = kf p \<longrightarrow> q = p"
  shows "map_of (fold (\<lambda>p. AList.update (kf p) (vf p)) ps []) (kf p) = Some (vf p)"
proof -
  have "map_of (rev (map (\<lambda>p. (kf p, vf p)) ps)) (kf p) = Some (vf p)"
    using assms by (intro map_of_unique) auto
  then show ?thesis by (simp add: map_of_fold_update)
qed

lemma length_filter_ne:
  "distinct vs \<Longrightarrow> a \<in> set vs \<Longrightarrow> length (filter (\<lambda>b. a \<noteq> b) vs) = length vs - 1"
proof (induction vs)
  case Nil
  then show ?case by simp
next
  case (Cons v vs)
  show ?case
  proof (cases "a = v")
    case True
    then have "a \<notin> set vs" using Cons.prems(1) by simp
    then have "filter (\<lambda>b. a \<noteq> b) vs = vs" by (auto simp: filter_id_conv)
    then show ?thesis using True by simp
  next
    case False
    then have "a \<in> set vs" using Cons.prems(2) by simp
    then have "length (filter (\<lambda>b. a \<noteq> b) vs) = length vs - 1" "0 < length vs"
      using Cons.IH Cons.prems(1) by (auto simp: length_pos_if_in_set)
    then show ?thesis using False by simp
  qed
qed

lemma length_ordered_pairs:
  assumes "distinct vs"
  shows "length (ordered_pairs vs) = length vs * (length vs - 1)"
proof -
  let ?G = "\<lambda>a. map (Pair a) (filter (\<lambda>b. a \<noteq> b) vs)"
  have e: "map (length \<circ> ?G) vs = map (\<lambda>a. length vs - 1) vs"
    by (rule map_cong) (simp_all add: length_filter_ne [OF assms])
  have "length (ordered_pairs vs) = sum_list (map (length \<circ> ?G) vs)"
    unfolding ordered_pairs_def length_concat map_map by (rule refl)
  then show ?thesis unfolding e by (simp add: sum_list_replicate map_replicate_const)
qed

lemma tested_pairs_no_null: "Null \<notin> set vs \<Longrightarrow> tested_pairs vs = ordered_pairs vs"
proof -
  assume n: "Null \<notin> set vs"
  have "filter (py_ne a) vs = filter (\<lambda>b. a \<noteq> b) vs" if "a \<in> set vs" for a
    using that n by (auto simp: py_ne_def intro: filter_cong)
  then show ?thesis by (simp add: tested_pairs_def ordered_pairs_def cong: map_cong)
qed

lemma sep_split:
  assumes "'' causes '' = us @ vs" and "us \<noteq> []"
  shows "(vs \<noteq> [] \<and> hd vs \<noteq> CHR '' '') \<or> us = '' causes'' \<or> us = '' causes ''"
proof -
  from assms obtain u1 where u1: "us = CHR '' '' # u1" "''causes '' = u1 @ vs"
    by (cases us) auto
  show ?thesis
  proof (cases u1)
    case Nil then show ?thesis using u1 by auto
  next
    case (Cons c1 u2)
    then have u2: "u1 = CHR ''c'' # u2" "''auses '' = u2 @ vs" using u1 by auto
    show ?thesis
    proof (cases u2)
      case Nil then show ?thesis using u2 by auto
    next
      case (Cons c2 u3)
      then have u3: "u2 = CHR ''a'' # u3" "''uses '' = u3 @ vs" using u2 by auto
      show ?thesis
      proof (cases u3)
        case Nil then show ?thesis using u3 by auto
      next
        case (Cons c3 u4)
        then have u4: "u3 = CHR ''u'' # u4" "''ses '' = u4 @ vs" using u3 by auto
        show ?thesis
        proof (cases u4)
          case Nil then show ?thesis using u4 by auto
        next
          case (Cons c4 u5)
          then have u5: "u4 = CHR ''s'' # u5" "''es '' = u5 @ vs" using u4 by auto
          show ?thesis
          proof (cases u5)
            case Nil then show ?thesis using u5 by auto
          next
            case (Cons c5 u6)
            then have u6: "u5 = CHR ''e'' # u6" "''s '' = u6 @ vs" using u5 by auto
            show ?thesis
            proof (cases u6)
              case Nil then show ?thesis using u6 by auto
            next
              case (Cons c6 u7)
              then have u7: "u6 = CHR ''s'' # u7" "'' '' = u7 @ vs" using u6 by auto
              show ?thesis
              proof (cases u7)
                case Nil
                then show ?thesis using u1 u2 u3 u4 u5 u6 u7 by simp
              next
                case (Cons c7 u8)
                then have "u7 = '' ''" "vs = []" using u7 by auto
                then show ?thesis using u1 u2 u3 u4 u5 u6 u7 by simp
              qed
            qed
          qed
        qed
      qed
    qed
  qed
qed


lemma key_prefix_aux:
  assumes free: "\<forall>p q. x \<noteq> p @ ''causes'' @ q"
    and x: "x = x' @ us"
    and eq: "'' causes '' @ y = us @ '' causes '' @ y'"
  shows "us = []"
proof (rule ccontr)
  assume ne: "us \<noteq> []"
  from eq obtain vs where
    "('' causes '' = us @ vs \<and> vs @ y = '' causes '' @ y') \<or>
     ('' causes '' @ vs = us \<and> y = vs @ '' causes '' @ y')"
    unfolding append_eq_append_conv2 by blast
  then show False
  proof
    assume a: "'' causes '' = us @ vs \<and> vs @ y = '' causes '' @ y'"
    have "\<not> (vs \<noteq> [] \<and> hd vs \<noteq> CHR '' '')"
    proof
      assume b: "vs \<noteq> [] \<and> hd vs \<noteq> CHR '' ''"
      then obtain v vs' where "vs = v # vs'" by (cases vs) auto
      then show False using a b by simp
    qed
    then have "us = '' causes'' \<or> us = '' causes ''"
      using sep_split [of us vs] a ne by blast
    then have "x = (x' @ '' '') @ ''causes'' @ [] \<or> x = (x' @ '' '') @ ''causes'' @ '' ''"
      using x by auto
    then show False using free by blast
  next
    assume "'' causes '' @ vs = us \<and> y = vs @ '' causes '' @ y'"
    then have "x = (x' @ '' '') @ ''causes'' @ ('' '' @ vs)" using x by auto
    then show False using free by blast
  qed
qed

lemma key_determines_pair:
  assumes "\<forall>p q. x1 \<noteq> p @ ''causes'' @ q" and "\<forall>p q. x2 \<noteq> p @ ''causes'' @ q"
    and "x1 @ '' causes '' @ y1 = x2 @ '' causes '' @ y2"
  shows "x1 = x2 \<and> y1 = y2"
proof -
  from assms(3) obtain us where us:
    "(x1 = x2 @ us \<and> us @ '' causes '' @ y1 = '' causes '' @ y2) \<or>
     (x1 @ us = x2 \<and> '' causes '' @ y1 = us @ '' causes '' @ y2)"
    unfolding append_eq_append_conv2 by blast
  have "us = []"
  proof (rule disjE [OF us])
    assume a: "x1 = x2 @ us \<and> us @ '' causes '' @ y1 = '' causes '' @ y2"
    show ?thesis
      by (rule key_prefix_aux [OF assms(1), of x2 us y2 y1]) (use a in simp_all)
  next
    assume a: "x1 @ us = x2 \<and> '' causes '' @ y1 = us @ '' causes '' @ y2"
    show ?thesis
      by (rule key_prefix_aux [OF assms(2), of x1 us y1 y2]) (use a in simp_all)
  qed
  then show ?thesis using us by simp
qed


lemma ordered_pairs_filter:
  "concat (map (\<lambda>a. map (Pair a) (filter (\<lambda>b. a \<noteq> b) ws)) us) =
   filter (\<lambda>p. fst p \<noteq> snd p) (List.product us ws)"
  by (induction us) (simp_all add: filter_map o_def)

lemma distinct_ordered_pairs: "distinct vs \<Longrightarrow> distinct (ordered_pairs vs)"
  unfolding ordered_pairs_def ordered_pairs_filter
  by (intro distinct_filter distinct_product)

lemma set_ordered_pairs: "set (ordered_pairs vs) \<subseteq> set vs \<times> set vs"
  by (auto simp: ordered_pairs_def)

text \<open>Names with distinct texts, none of which holds the word \<^verbatim>\<open>causes\<close>, give every ordered
  pair a key of its own.\<close>

lemma distinct_keys:
  assumes "distinct (map (label_str L) vs)"
    and "\<forall>v \<in> set vs. \<forall>p q. label_str L v \<noteq> p @ ''causes'' @ q"
  shows "distinct (map (\<lambda>p. pair_key L (fst p) (snd p)) (ordered_pairs vs))"
proof -
  have dv: "distinct vs" and inj: "inj_on (label_str L) (set vs)"
    using assms(1) by (simp_all add: distinct_map)
  have "inj_on (\<lambda>p. pair_key L (fst p) (snd p)) (set (ordered_pairs vs))"
  proof (rule inj_onI)
    fix p p'
    assume p: "p \<in> set (ordered_pairs vs)" and p': "p' \<in> set (ordered_pairs vs)"
      and k: "pair_key L (fst p) (snd p) = pair_key L (fst p') (snd p')"
    have m: "fst p \<in> set vs" "snd p \<in> set vs" "fst p' \<in> set vs" "snd p' \<in> set vs"
      using p p' set_ordered_pairs [of vs] by auto
    have "label_str L (fst p) = label_str L (fst p') \<and>
          label_str L (snd p) = label_str L (snd p')"
      by (rule key_determines_pair) (use assms(2) m k in \<open>simp_all add: pair_key_def\<close>)
    then have "fst p = fst p'" "snd p = snd p'"
      using inj m by (auto dest: inj_onD)
    then show "p = p'" by (simp add: prod_eq_iff)
  qed
  then show ?thesis using distinct_ordered_pairs [OF dv] by (simp add: distinct_map)
qed
section \<open>The simulation\<close>

lemma normal_row_length: "length (fst (normal_row L m s n g)) = n"
proof (induction n arbitrary: g)
  case 0
  show ?case by simp
next
  case (Suc n)
  obtain x g1 where d: "random_normal L m s g = (x, g1)" by (cases "random_normal L m s g")
  obtain xs g2 where r: "normal_row L m s n g1 = (xs, g2)" by (cases "normal_row L m s n g1")
  have "length xs = n" using Suc.IH [of g1] r by simp
  then show ?case using d r by simp
qed

lemma fill_simulations_shape:
  "length (fst (fill_simulations L m s k p g)) = k \<and>
   list_all (\<lambda>row. length row = p) (fst (fill_simulations L m s k p g))"
proof (induction k arbitrary: g)
  case 0
  show ?case by simp
next
  case (Suc k)
  obtain row g1 where r: "normal_row L m s p g = (row, g1)" by (cases "normal_row L m s p g")
  obtain others g2 where f: "fill_simulations L m s k p g1 = (others, g2)"
    by (cases "fill_simulations L m s k p g1")
  have "length row = p" using normal_row_length [of L m s p g] r by simp
  moreover have "length others = k \<and> list_all (\<lambda>row. length row = p) others"
    using Suc.IH [of g1] f by simp
  ultimately show ?case using r f by simp
qed

lemma along_axis0_length: "length (along_axis0 f p sims) = p"
  by (simp add: along_axis0_def)

text \<open>
  C8. For a variable whose column holds at least two values that are not missing, all of
  them numbers as in a cleaned frame, and non-negative \<open>num_simulations\<close> and
  \<open>forecast_period\<close>, \<^verbatim>\<open>monte_carlo_simulation\<close> returns a trial matrix of
  \<open>num_simulations\<close> rows of \<open>forecast_period\<close> values each, and a forecast mean and a
  forecast standard deviation of length \<open>forecast_period\<close>.
\<close>

theorem monte_carlo_simulation_shape:
  assumes "historical_data data variable = Inr hist"
    and "2 \<le> length hist"
    and "numbers_of (concat hist) = Inr hs"
    and "0 \<le> num_simulations" and "0 \<le> forecast_period"
  shows "\<exists>simulations forecast_mean forecast_std_dev g1.
           monte_carlo_simulation L data variable num_simulations forecast_period g =
             Inr (Some (simulations, forecast_mean, forecast_std_dev), g1) \<and>
           length forecast_mean = nat forecast_period \<and>
           length forecast_std_dev = nat forecast_period \<and>
           length simulations = nat num_simulations \<and>
           list_all (\<lambda>row. length row = nat forecast_period) simulations"
proof -
  obtain sims g1 where f:
    "fill_simulations L (np_mean L hs) (np_std L hs) (nat num_simulations) (nat forecast_period) g
       = (sims, g1)"
    by (cases "fill_simulations L (np_mean L hs) (np_std L hs) (nat num_simulations)
                 (nat forecast_period) g")
  have shape: "length sims = nat num_simulations \<and>
               list_all (\<lambda>row. length row = nat forecast_period) sims"
    using fill_simulations_shape [of L "np_mean L hs" "np_std L hs" "nat num_simulations"
        "nat forecast_period" g] f by simp
  have "monte_carlo_simulation L data variable num_simulations forecast_period g =
          Inr (Some (sims, along_axis0 (np_mean L) (nat forecast_period) sims,
                     along_axis0 (np_std L) (nat forecast_period) sims), g1)"
    using assms f by (simp add: monte_carlo_simulation_def)
  then show ?thesis using shape along_axis0_length by blast
qed


theorem monte_carlo_simulation_shape_witness:
  "historical_data two_values (Str ''Occupied units'') = Inr [[Num 1], [Num 3]] \<and>
   numbers_of (concat [[Num 1], [Num 3]]) = Inr [1, 3] \<and>
   (\<exists>simulations forecast_mean forecast_std_dev g1.
      monte_carlo_simulation sample_library two_values (Str ''Occupied units'') 3 2 (0::nat) =
        Inr (Some (simulations, forecast_mean, forecast_std_dev), g1) \<and>
      length forecast_mean = 2 \<and> length forecast_std_dev = 2 \<and> length simulations = 3 \<and>
      list_all (\<lambda>row. length row = 2) simulations)"
proof -
  have h: "historical_data two_values (Str ''Occupied units'') = Inr [[Num 1], [Num 3]]"
    by (simp add: historical_data_def two_values_def select_columns_def dropna_def cells_at_def)
  have n: "numbers_of (concat [[Num 1], [Num 3]]) = Inr [1, 3]"
    by (simp add: numbers_of_def num_of_def)
  show ?thesis
    using h n monte_carlo_simulation_shape [OF h _ n, of 3 2 sample_library 0] by simp
qed

text \<open>
  C9. For a variable that labels a column, \<^verbatim>\<open>monte_carlo_simulation\<close> returns
  \<^verbatim>\<open>(None, None, None)\<close> exactly when fewer than two values remain after the missing ones
  are discarded. It then leaves the random generator as it was (no trial is drawn), and
  the loop of \<^verbatim>\<open>analyze_sheets\<close> stores the text \<^verbatim>\<open>Insufficient data for simulation\<close> for
  the variable. A column with a single value is such a case.
\<close>

theorem insufficient_data_marker:
  assumes "historical_data data (Str var) = Inr hist"
  shows "((\<exists>g1. monte_carlo_simulation L data (Str var) num_simulations forecast_period g =
                  Inr (None, g1)) \<longleftrightarrow> length hist < 2) \<and>
         (length hist < 2 \<longrightarrow>
            monte_carlo_simulation L data (Str var) num_simulations forecast_period g =
              Inr (None, g) \<and>
            simulate_variables L data num_simulations forecast_period [var] results g =
              Inr (AList.update var (SimulationMarker ''Insufficient data for simulation'')
                     results, g))"
proof -
  have col: "Str var \<in> set (columns data)"
    using assms by (auto simp: historical_data_def split: if_splits)
  have short: "monte_carlo_simulation L data (Str var) num_simulations forecast_period g =
                 Inr (None, g)" if "length hist < 2"
    using assms that by (simp add: monte_carlo_simulation_def)
  have long: "monte_carlo_simulation L data (Str var) num_simulations forecast_period g \<noteq>
                Inr (None, g1)" if "\<not> length hist < 2" for g1
    using assms that
    by (auto simp: monte_carlo_simulation_def Let_def split: sum.splits prod.splits)
  have loop: "simulate_variables L data num_simulations forecast_period [var] results g =
                Inr (AList.update var (SimulationMarker ''Insufficient data for simulation'')
                       results, g)" if "length hist < 2"
    using short [OF that] col by simp
  show ?thesis using short long loop by blast
qed

theorem insufficient_data_marker_witness:
  "historical_data single_value (Str ''Occupied units'') = Inr [[Num 5]] \<and>
   monte_carlo_simulation sample_library single_value (Str ''Occupied units'') 1000 10 (0::nat) =
     Inr (None, 0) \<and>
   simulate_variables sample_library single_value 1000 10 [''Occupied units''] [] (0::nat) =
     Inr ([(''Occupied units'', SimulationMarker ''Insufficient data for simulation'')], 0)"
proof -
  have h: "historical_data single_value (Str ''Occupied units'') = Inr [[Num 5]]"
    by (simp add: historical_data_def single_value_def select_columns_def dropna_def
        cells_at_def)
  show ?thesis
    using h insufficient_data_marker [OF h, of sample_library 1000 10 0 "[]"] by simp
qed

section \<open>Cleaning\<close>

lemma mask_keep_Cons:
  "mask_keep (b # ms) (x # xs) = (if b then x # mask_keep ms xs else mask_keep ms xs)"
  by (simp add: mask_keep_def)

lemma mask_keep_tl: "mask_keep m xs = c0 # cs \<Longrightarrow> set cs \<subseteq> set (tl xs)"
proof (cases m)
  case Nil
  assume "mask_keep m xs = c0 # cs"
  then show ?thesis using Nil by (simp add: mask_keep_def)
next
  case (Cons b ms)
  assume a: "mask_keep m xs = c0 # cs"
  show ?thesis
  proof (cases xs)
    case Nil
    then show ?thesis using a by (simp add: mask_keep_def)
  next
    case c: (Cons x xs')
    have sub: "set (mask_keep ms xs') \<subseteq> set xs'" by (rule mask_keep_subset)
    have "set cs \<subseteq> set (mask_keep ms xs')"
    proof (cases b)
      case True
      then have "cs = mask_keep ms xs'" using a Cons c by (simp add: mask_keep_Cons)
      then show ?thesis by simp
    next
      case False
      then have "c0 # cs = mask_keep ms xs'" using a Cons c by (simp add: mask_keep_Cons)
      then show ?thesis by (metis set_subset_Cons)
    qed
    then show ?thesis using sub c by auto
  qed
qed

lemma some_column_kept:
  assumes "rect d" and "r \<in> set (rows d)" and "x \<in> set r" and "x \<noteq> Null"
  shows "columns (dropna_all_columns d) \<noteq> []"
proof -
  obtain j where j: "j < length r" "r ! j = x" using assms(3) by (auto simp: in_set_conv_nth)
  have len: "length r = length (columns d)" using rect_row [OF assms(1,2)] .
  let ?m = "map (\<lambda>j. list_ex (\<lambda>r. j < length r \<and> r ! j \<noteq> Null) (rows d))
                [0..<length (columns d)]"
  have "list_ex (\<lambda>r. j < length r \<and> r ! j \<noteq> Null) (rows d)"
    unfolding list_ex_iff using assms(2,4) j by blast
  then have "?m ! j" using j len by simp
  then have "columns d ! j \<in> set (mask_keep ?m (columns d))"
    using mask_keep_nth [of j ?m "columns d"] j len by simp
  then show ?thesis by (auto simp: dropna_all_columns_def Let_def)
qed

lemma robust_clean_data_returns:
  assumes "rect df" and "rows df = header # body" and "distinct header"
    and "Str ''Year'' \<notin> set (tl header)"
    and "list_ex (\<lambda>r. list_ex (\<lambda>x. x \<noteq> Null) r) body"
  shows "\<exists>c. robust_clean_data L df = Inr c"
proof -
  let ?d1 = "\<lparr>columns = header, rows = body\<rparr>"
  let ?d3 = "dropna (dropna_all_columns ?d1)"
  have r1: "rect ?d1" using rect_promote [OF assms(1,2)] .
  obtain r x where "r \<in> set (rows ?d1)" "x \<in> set r" "x \<noteq> Null"
    using assms(5) by (auto simp: list_ex_iff)
  then have "columns (dropna_all_columns ?d1) \<noteq> []" using some_column_kept [OF r1] by blast
  then obtain c0 cs3 where c3: "columns ?d3 = c0 # cs3"
    by (cases "columns (dropna_all_columns ?d1)") (auto simp: dropna_def)
  let ?m = "map (\<lambda>j. list_ex (\<lambda>r. j < length r \<and> r ! j \<noteq> Null) body) [0..<length header]"
  have mk: "mask_keep ?m header = c0 # cs3"
    using c3 by (simp add: dropna_def dropna_all_columns_def Let_def)
  have "distinct (c0 # cs3)" using mask_keep_distinct [OF assms(3), of ?m] mk by simp
  then have n0: "c0 \<notin> set cs3" by simp
  have ny: "Str ''Year'' \<notin> set cs3" using mask_keep_tl [OF mk] assms(4) by blast
  have "map (\<lambda>c. if c = c0 then Str ''Year'' else c) cs3 = cs3"
    using n0 by (induction cs3) auto
  then have "count_list (columns (rename c0 (Str ''Year'') ?d3)) (Str ''Year'') = 1"
    using c3 ny by (simp add: rename_def)
  then show ?thesis
    using assms(2) c3 by (simp add: robust_clean_data_def Let_def)
qed


lemma robust_clean_data_error:
  "robust_clean_data L df = Inl e \<Longrightarrow>
   (e = IndexError \<and> (rows df = [] \<or> labels_after_renaming df = [])) \<or>
   (e = TypeError \<and> 1 < count_list (labels_after_renaming df) (Str ''Year''))"
proof (cases "rows df")
  case Nil
  assume "robust_clean_data L df = Inl e"
  then show ?thesis using Nil by (simp add: robust_clean_data_def)
next
  case (Cons header body)
  assume a: "robust_clean_data L df = Inl e"
  let ?d2 = "dropna_all_columns \<lparr>columns = header, rows = body\<rparr>"
  have c3: "columns (dropna ?d2) = columns ?d2" by (simp add: dropna_def)
  show ?thesis
  proof (cases "columns ?d2")
    case Nil
    then have "labels_after_renaming df = []"
      using Cons by (simp add: labels_after_renaming_def Let_def rename_def)
    then show ?thesis using a Cons Nil c3 by (simp add: robust_clean_data_def Let_def)
  next
    case c: (Cons c0 cs)
    have l: "columns (rename c0 (Str ''Year'') (dropna ?d2)) = labels_after_renaming df"
      using Cons c c3 by (simp add: labels_after_renaming_def Let_def rename_def)
    have "0 < count_list (labels_after_renaming df) (Str ''Year'')"
      unfolding l [symmetric] using c c3 by (simp add: rename_def)
    then show ?thesis
      using a Cons c c3 l by (auto simp: robust_clean_data_def Let_def split: if_splits)
  qed
qed







lemma frame_eqI: "columns a = columns b \<Longrightarrow> rows a = rows b \<Longrightarrow> a = (b::frame)"
  by simp

lemma map_row_fixed:
  assumes "length r = length cols" and "\<forall>x \<in> set r. f x = x"
  shows "map (\<lambda>p. if Q (fst p) then f (snd p) else snd p) (zip cols r) = r"
proof -
  have "map (\<lambda>p. if Q (fst p) then f (snd p) else snd p) (zip cols r) = map snd (zip cols r)"
    using assms(2) by (auto dest: set_zip_rightD)
  then show ?thesis using assms(1) by (simp add: map_snd_zip)
qed

lemma cells_at_middle:
  assumes "c \<notin> set pre" "c \<notin> set cs" "length rp = length pre"
  shows "cells_at (pre @ c # cs) (rp @ x # xs) c = [x]"
proof -
  have "filter (\<lambda>p. fst p = c) (zip pre rp) = []"
    using assms(1) by (auto simp: filter_empty_conv dest: set_zip_leftD)
  moreover have "filter (\<lambda>p. fst p = c) (zip cs xs) = []"
    using assms(2) by (auto simp: filter_empty_conv dest: set_zip_leftD)
  ultimately show ?thesis using assms(3) by (simp add: cells_at_def)
qed

lemma cells_at_all_aux:
  "distinct (pre @ cols) \<Longrightarrow> length rp = length pre \<Longrightarrow> length r = length cols \<Longrightarrow>
   concat (map (cells_at (pre @ cols) (rp @ r)) cols) = r"
proof (induction cols arbitrary: pre rp r)
  case Nil
  then show ?case by simp
next
  case (Cons c cs)
  obtain x xs where r: "r = x # xs" "length xs = length cs"
    using Cons.prems(3) by (cases r) auto
  have h: "cells_at (pre @ c # cs) (rp @ x # xs) c = [x]"
    using Cons.prems(1,2) by (intro cells_at_middle) auto
  have "concat (map (cells_at ((pre @ [c]) @ cs) ((rp @ [x]) @ xs)) cs) = xs"
    using Cons.prems(1,2) r(2) by (intro Cons.IH) auto
  then show ?case using h r by simp
qed

lemma cells_at_all:
  "distinct cols \<Longrightarrow> length r = length cols \<Longrightarrow> concat (map (cells_at cols r) cols) = r"
  using cells_at_all_aux [of "[]" cols "[]" r] by simp

lemma num_of_to_numeric: "num_of x \<noteq> None \<Longrightarrow> to_numeric L x = x"
  by (auto simp: num_of_def to_numeric_def split: cell.splits)

lemma astype_int_fixed: "is_int_cell x \<Longrightarrow> astype_int x = x"
proof (cases x)
  case (Num q)
  assume "is_int_cell x"
  then have q: "q = of_int \<lfloor>q\<rfloor>" using Num by (simp add: is_int_cell_def)
  have "of_int (truncate q) = q"
  proof (cases "0 \<le> q")
    case True
    then show ?thesis using q by (simp add: truncate_def)
  next
    case False
    have "\<lceil>q\<rceil> = \<lfloor>q\<rfloor>" by (metis q ceiling_of_int floor_of_int)
    then show ?thesis using False q by (simp add: truncate_def)
  qed
  then show ?thesis using Num by (simp add: astype_int_def)
qed (simp_all add: is_int_cell_def)

lemma distinct_count_one: "distinct xs \<Longrightarrow> x \<in> set xs \<Longrightarrow> count_list xs x = 1"
  by (induction xs) auto

lemma robust_clean_data_stages:
  assumes "rows df = header # body"
    and "dropna (dropna_all_columns \<lparr>columns = header, rows = body\<rparr>) = d3"
    and "columns d3 = c0 # cs3"
    and "rename c0 (Str ''Year'') d3 = d4"
    and "count_list (columns d4) (Str ''Year'') = 1"
    and "map_column astype_int (Str ''Year'')
           (dropna_subset (Str ''Year'') (map_column (to_numeric L) (Str ''Year'') d4)) = d7"
    and "coerce_columns L (tl (columns d7)) d7 [Str ''Year''] = res"
  shows "robust_clean_data L df = Inr (dropna (select_columns (fst res) (snd res)))"
  using assms by (simp add: robust_clean_data_def Let_def)

text \<open>Cleaning a cleaned frame that has a row, with its labels put back as the first row.\<close>

lemma reclean:
  assumes cl: "cleaned c" and ne: "rows c \<noteq> []"
  shows "robust_clean_data L \<lparr>columns = h0, rows = columns c # rows c\<rparr> = Inr c"
proof -
  let ?Y = "Str ''Year''"
  obtain cs where cols: "columns c = ?Y # cs"
    using cl by (cases "columns c") (auto simp: cleaned_def)
  have dist: "distinct (?Y # cs)" using cl cols by (simp add: cleaned_def)
  have y: "?Y \<notin> set cs" using dist by simp
  have rc: "rect c" using cl by (simp add: cleaned_def)
  have len: "length r = length (columns c)" if "r \<in> set (rows c)" for r
    using rect_row [OF rc that] .
  have num: "num_of x \<noteq> None" if "r \<in> set (rows c)" "x \<in> set r" for r x
    using cl that by (auto simp: cleaned_def list_all_iff)
  have nonull: "Null \<notin> set r" if "r \<in> set (rows c)" for r
  proof
    assume "Null \<in> set r"
    then have "num_of Null \<noteq> None" using num [OF that] by blast
    then show False by (simp add: num_of_def)
  qed
  have int: "is_int_cell (hd r)" if "r \<in> set (rows c)" for r
    using cl that by (auto simp: cleaned_def list_all_iff)
  have d1: "\<lparr>columns = columns c, rows = rows c\<rparr> = c" by simp
  have d2: "dropna_all_columns c = c"
  proof -
    obtain r0 rest where r0: "rows c = r0 # rest" using ne by (cases "rows c") auto
    let ?m = "map (\<lambda>j. list_ex (\<lambda>r. j < length r \<and> r ! j \<noteq> Null) (rows c))
                  [0..<length (columns c)]"
    have "list_ex (\<lambda>r. j < length r \<and> r ! j \<noteq> Null) (rows c)" if "j < length (columns c)" for j
    proof -
      have "r0 \<in> set (rows c)" using r0 by simp
      moreover have "j < length r0" using that len [of r0] r0 by simp
      moreover have "r0 ! j \<noteq> Null" using nonull [of r0] r0 \<open>j < length r0\<close>
        by (metis list.set_intros(1) nth_mem)
      ultimately show ?thesis unfolding list_ex_iff by blast
    qed
    then have allm: "list_all (\<lambda>b. b) ?m" by (simp add: list_all_iff)
    have lm: "length ?m = length (columns c)" by simp
    have "mask_keep ?m (columns c) = columns c" using mask_keep_all [OF lm allm] .
    moreover have "map (mask_keep ?m) (rows c) = rows c"
    proof (rule map_idI)
      fix r assume "r \<in> set (rows c)"
      then have "length ?m = length r" using len by simp
      then show "mask_keep ?m r = r" using mask_keep_all allm by blast
    qed
    ultimately show ?thesis by (simp add: dropna_all_columns_def Let_def)
  qed
  have d3: "dropna c = c" using nonull by (simp add: dropna_def filter_id_conv)
  have d4: "rename ?Y ?Y c = c" by (simp add: rename_def)
  have cnt: "count_list (columns c) ?Y = 1" using y cols by simp
  have d5: "map_column (to_numeric L) l c = c" for l
  proof -
    have "map (\<lambda>r. map (\<lambda>p. if fst p = l then to_numeric L (snd p) else snd p)
                     (zip (columns c) r)) (rows c) = rows c"
    proof (rule map_idI)
      fix r assume r: "r \<in> set (rows c)"
      show "map (\<lambda>p. if fst p = l then to_numeric L (snd p) else snd p) (zip (columns c) r) = r"
        using map_row_fixed [OF len [OF r], of "to_numeric L" "\<lambda>c. c = l"]
          num [OF r] num_of_to_numeric by blast
    qed
    then show ?thesis by (simp add: map_column_def)
  qed
  have d6: "dropna_subset ?Y c = c"
  proof -
    have "Null \<notin> set (cells_at (columns c) r ?Y)" if "r \<in> set (rows c)" for r
      using nonull [OF that] cells_at_subset by fastforce
    then show ?thesis by (simp add: dropna_subset_def filter_id_conv)
  qed
  have d7: "map_column astype_int ?Y c = c"
  proof -
    have "map (\<lambda>r. map (\<lambda>p. if fst p = ?Y then astype_int (snd p) else snd p)
                     (zip (columns c) r)) (rows c) = rows c"
    proof (rule map_idI)
      fix r assume r: "r \<in> set (rows c)"
      obtain y0 xs where yx: "r = y0 # xs" "length xs = length cs"
        using rect_row_Cons [OF rc cols r] by blast
      have "astype_int y0 = y0" using int [OF r] yx astype_int_fixed by simp
      then show "map (\<lambda>p. if fst p = ?Y then astype_int (snd p) else snd p)
                     (zip (columns c) r) = r"
        using map_row_head [OF y yx(2), of astype_int y0] yx cols by simp
    qed
    then show ?thesis by (simp add: map_column_def)
  qed
  have one: "count_list (columns c) l = 1" if "l \<in> set cs" for l
    using distinct_count_one [OF dist, of l] that cols by simp
  have d8s: "snd (coerce_columns L cs c [?Y]) = columns c"
  proof -
    have "filter (\<lambda>l. count_list (columns c) l = 1) cs = cs"
      using one by (simp add: filter_id_conv)
    then show ?thesis by (simp add: coerce_columns_snd cols)
  qed
  have d8f: "fst (coerce_columns L cs c [?Y]) = c"
  proof (rule frame_eqI)
    show "columns (fst (coerce_columns L cs c [?Y])) = columns c"
      by (rule coerce_columns_fst_columns)
    have "map (\<lambda>r. map (\<lambda>p. if fst p \<in> set cs \<and> count_list (columns c) (fst p) = 1
                          then to_numeric L (snd p) else snd p) (zip (columns c) r))
              (rows c) = rows c"
    proof (rule map_idI)
      fix r assume r: "r \<in> set (rows c)"
      show "map (\<lambda>p. if fst p \<in> set cs \<and> count_list (columns c) (fst p) = 1
                      then to_numeric L (snd p) else snd p) (zip (columns c) r) = r"
        using map_row_fixed [OF len [OF r], of "to_numeric L"
            "\<lambda>l. l \<in> set cs \<and> count_list (columns c) l = 1"]
          num [OF r] num_of_to_numeric by blast
    qed
    then show "rows (fst (coerce_columns L cs c [?Y])) = rows c"
      using coerce_columns_rows [OF rc, of L cs "[?Y]"] by simp
  qed
  have d9: "select_columns c (columns c) = c"
  proof (rule frame_eqI)
    have "\<forall>l \<in> set (columns c). count_list (columns c) l = 1"
      using distinct_count_one dist cols by metis
    then show "columns (select_columns c (columns c)) = columns c"
      using concat_singletons by (simp add: select_columns_def)
    have "map (\<lambda>r. concat (map (cells_at (columns c) r) (columns c))) (rows c) = rows c"
    proof (rule map_idI)
      fix r assume r: "r \<in> set (rows c)"
      show "concat (map (cells_at (columns c) r) (columns c)) = r"
        using cells_at_all [OF _ len [OF r]] dist cols by simp
    qed
    then show "rows (select_columns c (columns c)) = rows c" by (simp add: select_columns_def)
  qed
  have s2: "dropna (dropna_all_columns \<lparr>columns = columns c, rows = rows c\<rparr>) = c"
    unfolding d1 d2 d3 ..
  have s6: "map_column astype_int ?Y (dropna_subset ?Y (map_column (to_numeric L) ?Y c)) = c"
    by (simp add: d5 d6 d7)
  have s7: "coerce_columns L (tl (columns c)) c [?Y] = (c, columns c)"
    using d8f d8s cols by (simp add: prod_eq_iff)
  have "robust_clean_data L \<lparr>columns = h0, rows = columns c # rows c\<rparr> =
          Inr (dropna (select_columns (fst (c, columns c)) (snd (c, columns c))))"
    by (rule robust_clean_data_stages [OF _ s2 cols d4 cnt s6 s7]) simp
  then show ?thesis by (simp add: d9 d3)
qed

text \<open>
  C5, as amended. A frame that \<^verbatim>\<open>robust_clean_data\<close> returned and that has a row, given
  back to it in the form of a raw sheet (its labels as the first row, under any labels
  \<open>h0\<close>), comes back unchanged.
\<close>

theorem reclean_with_header:
  assumes "rect df" and "robust_clean_data L df = Inr c" and "rows c \<noteq> []"
  shows "robust_clean_data L \<lparr>columns = h0, rows = columns c # rows c\<rparr> = Inr c"
  using reclean [OF robust_clean_data_cleaned [OF assms(1,2)] assms(3)] .

theorem reclean_with_header_witness:
  "rect mixed_sheet \<and>
   robust_clean_data sample_library mixed_sheet = Inr mixed_cleaned \<and>
   rows mixed_cleaned \<noteq> [] \<and>
   robust_clean_data sample_library
     \<lparr>columns = [Str ''Housing'', Str ''Unnamed: 1''],
      rows = columns mixed_cleaned # rows mixed_cleaned\<rparr> = Inr mixed_cleaned"
proof -
  have r: "rect mixed_sheet" by (simp add: rect_def mixed_sheet_def)
  have e: "robust_clean_data sample_library mixed_sheet = Inr mixed_cleaned" by code_simp
  have n: "rows mixed_cleaned \<noteq> []" by (simp add: mixed_cleaned_def)
  show ?thesis
    using r e n reclean_with_header [OF r e n, of "[Str ''Housing'', Str ''Unnamed: 1'']"]
    by simp
qed

text \<open>C5 as stated fails: given the cleaned frame as it is, \<^verbatim>\<open>robust_clean_data\<close> takes its
  first row for the labels, so a row is lost and the second column is renamed.\<close>

theorem reclean_counterexample:
  "robust_clean_data sample_library mixed_sheet = Inr mixed_cleaned \<and>
   robust_clean_data sample_library mixed_cleaned =
     Inr \<lparr>columns = [Str ''Year'', Num 12],
          rows = [[Num 2001, Num (5 / 2)], [Num 2001, Num 7]]\<rparr> \<and>
   robust_clean_data sample_library mixed_cleaned \<noteq> Inr mixed_cleaned"
  by code_simp


section \<open>The causality analysis\<close>

lemmas causality_defs =
  granger_causality_analysis_def record_pair_def py_ne_def pair_key_def label_str_def
  test_pair_def few_rows_test_def select_columns_def cells_at_def

text \<open>
  C3, as amended. When the variables (the labels after the first) are distinct, none of
  them is NaN, and the keys \<^verbatim>\<open>var1 causes var2\<close> of different ordered pairs are different
  strings, \<^verbatim>\<open>granger_causality_analysis\<close> returns one entry for each ordered pair of two
  different variables, in the order of the loops, under that pair's key:
  \<open>V * (V - 1)\<close> entries for \<open>V\<close> variables. By \<open>distinct_keys\<close> the keys are different
  whenever the names have distinct texts, none of which holds the word \<^verbatim>\<open>causes\<close>.
\<close>

theorem one_entry_per_ordered_pair:
  assumes "distinct (tl (columns data))" and "Null \<notin> set (tl (columns data))"
    and "distinct (map (\<lambda>p. pair_key L (fst p) (snd p)) (ordered_pairs (tl (columns data))))"
  shows "granger_causality_analysis L data max_lag =
           map (\<lambda>p. (pair_key L (fst p) (snd p), test_pair L data max_lag (fst p) (snd p)))
               (ordered_pairs (tl (columns data))) \<and>
         length (granger_causality_analysis L data max_lag) =
           length (tl (columns data)) * (length (tl (columns data)) - 1)"
proof -
  have t: "tested_pairs (tl (columns data)) = ordered_pairs (tl (columns data))"
    using tested_pairs_no_null [OF assms(2)] .
  have e: "granger_causality_analysis L data max_lag =
           map (\<lambda>p. (pair_key L (fst p) (snd p), test_pair L data max_lag (fst p) (snd p)))
               (ordered_pairs (tl (columns data)))"
    unfolding granger_causality_analysis_pairs t
    using fold_update_fresh [OF assms(3), of "[]"] by simp
  show ?thesis unfolding e using length_ordered_pairs [OF assms(1)] by simp
qed

theorem one_entry_per_ordered_pair_witness:
  "distinct (tl (columns two_variables)) \<and> Null \<notin> set (tl (columns two_variables)) \<and>
   map (\<lambda>p. pair_key sample_library (fst p) (snd p)) (ordered_pairs (tl (columns two_variables)))
     = [''a causes b'', ''b causes a''] \<and>
   map fst (granger_causality_analysis sample_library two_variables 3) =
     [''a causes b'', ''b causes a''] \<and>
   length (granger_causality_analysis sample_library two_variables 3) = 2 * (2 - 1)"
proof -
  have d: "distinct (tl (columns two_variables))" by (simp add: two_variables_def)
  have n: "Null \<notin> set (tl (columns two_variables))" by (simp add: two_variables_def)
  have k: "map (\<lambda>p. pair_key sample_library (fst p) (snd p))
             (ordered_pairs (tl (columns two_variables))) = [''a causes b'', ''b causes a'']"
    by (simp add: two_variables_def ordered_pairs_def pair_key_def label_str_def)
  have dk: "distinct (map (\<lambda>p. pair_key sample_library (fst p) (snd p))
             (ordered_pairs (tl (columns two_variables))))"
    unfolding k by simp
  have l: "length (tl (columns two_variables)) = 2" by (simp add: two_variables_def)
  note th = one_entry_per_ordered_pair [OF d n dk, of 3]
  have "map fst (granger_causality_analysis sample_library two_variables 3) =
          map (\<lambda>p. pair_key sample_library (fst p) (snd p))
            (ordered_pairs (tl (columns two_variables)))"
    unfolding conjunct1 [OF th] map_map o_def fst_conv by (rule refl)
  then have a: "map fst (granger_causality_analysis sample_library two_variables 3) =
                  [''a causes b'', ''b causes a'']"
    unfolding k .
  have b: "length (granger_causality_analysis sample_library two_variables 3) = 2 * (2 - 1)"
    using conjunct2 [OF th] unfolding l .
  show ?thesis using d n k a b by blast
qed

text \<open>C3 as stated fails: with the two distinct names \<^verbatim>\<open>a\<close> and \<^verbatim>\<open>a causes a\<close> both ordered
  pairs have the key \<^verbatim>\<open>a causes a causes a\<close>, and the dictionary has one entry, not two.\<close>

theorem colliding_keys_counterexample:
  "distinct (tl (columns colliding_labels)) \<and> length (tl (columns colliding_labels)) = 2 \<and>
   granger_causality_analysis sample_library colliding_labels 3 =
     [(''a causes a causes a'', CausalityError ''Error: Insufficient observations'')]"
  by (simp add: colliding_labels_def sample_library_def causality_defs)

lemma tested_pairs_py_ne: "(a, b) \<in> set (tested_pairs vs) \<Longrightarrow> py_ne a b"
  by (auto simp: tested_pairs_def)

text \<open>
  C4, as amended. When the primitive raises for a tested pair, the loop body stores under
  the pair's key the text \<^verbatim>\<open>Error: \<close> followed by the exception's text, and goes on. In
  the dictionary returned the key holds that text provided no other tested pair has the
  same key. Whatever raised, every tested pair has an entry under its key, and a pair
  whose key no other pair has finds its own result there.
\<close>

theorem failure_is_recorded:
  assumes "(var1, var2) \<in> set (tested_pairs (tl (columns data)))"
    and "grangercausalitytests L (select_columns data [var1, var2]) max_lag = Inl e"
  shows "map_of (record_pair L data max_lag var1 var2 results) (pair_key L var1 var2) =
           Some (CausalityError (''Error: '' @ e)) \<and>
         ((\<forall>q \<in> set (tested_pairs (tl (columns data))).
             pair_key L (fst q) (snd q) = pair_key L var1 var2 \<longrightarrow> q = (var1, var2)) \<longrightarrow>
          map_of (granger_causality_analysis L data max_lag) (pair_key L var1 var2) =
            Some (CausalityError (''Error: '' @ e))) \<and>
         (\<forall>p \<in> set (tested_pairs (tl (columns data))).
            pair_key L (fst p) (snd p) \<in> fst ` set (granger_causality_analysis L data max_lag) \<and>
            ((\<forall>q \<in> set (tested_pairs (tl (columns data))).
                pair_key L (fst q) (snd q) = pair_key L (fst p) (snd p) \<longrightarrow> q = p) \<longrightarrow>
             map_of (granger_causality_analysis L data max_lag) (pair_key L (fst p) (snd p)) =
               Some (test_pair L data max_lag (fst p) (snd p))))"
proof -
  let ?ps = "tested_pairs (tl (columns data))"
  let ?kf = "\<lambda>p. pair_key L (fst p) (snd p)"
  let ?vf = "\<lambda>p. test_pair L data max_lag (fst p) (snd p)"
  have own: "map_of (granger_causality_analysis L data max_lag) (?kf p) = Some (?vf p)"
    if "p \<in> set ?ps" "\<forall>q \<in> set ?ps. ?kf q = ?kf p \<longrightarrow> q = p" for p
    unfolding granger_causality_analysis_pairs
    using own_entry [of p ?ps ?kf ?vf, OF that] .
  have keys: "?kf p \<in> fst ` set (granger_causality_analysis L data max_lag)"
    if "p \<in> set ?ps" for p
    unfolding granger_causality_analysis_pairs fold_update_keys using that by simp
  have v: "test_pair L data max_lag var1 var2 = CausalityError (''Error: '' @ e)"
    using assms(2) by (simp add: test_pair_def)
  have step: "map_of (record_pair L data max_lag var1 var2 results) (pair_key L var1 var2) =
                Some (CausalityError (''Error: '' @ e))"
    using tested_pairs_py_ne [OF assms(1)] v by (simp add: record_pair_def update_conv')
  have final: "map_of (granger_causality_analysis L data max_lag) (pair_key L var1 var2) =
                 Some (CausalityError (''Error: '' @ e))"
    if u: "\<forall>q \<in> set ?ps. ?kf q = pair_key L var1 var2 \<longrightarrow> q = (var1, var2)"
  proof -
    have "\<forall>q \<in> set ?ps. ?kf q = ?kf (var1, var2) \<longrightarrow> q = (var1, var2)" using u by simp
    then show ?thesis using own [OF assms(1)] v by simp
  qed
  show ?thesis
  proof (intro conjI ballI impI)
    show "map_of (record_pair L data max_lag var1 var2 results) (pair_key L var1 var2) =
                Some (CausalityError (''Error: '' @ e))"
      by (rule step)
  next
    assume "\<forall>q \<in> set ?ps. ?kf q = pair_key L var1 var2 \<longrightarrow> q = (var1, var2)"
    then show "map_of (granger_causality_analysis L data max_lag) (pair_key L var1 var2) =
                 Some (CausalityError (''Error: '' @ e))"
      by (rule final)
  next
    fix p assume "p \<in> set ?ps"
    then show "?kf p \<in> fst ` set (granger_causality_analysis L data max_lag)"
      by (rule keys)
  next
    fix p
    assume "p \<in> set ?ps" "\<forall>q \<in> set ?ps. ?kf q = ?kf p \<longrightarrow> q = p"
    then show "map_of (granger_causality_analysis L data max_lag) (?kf p) = Some (?vf p)"
      by (rule own)
  qed
qed

theorem failure_is_recorded_witness:
  "(Str ''a'', Str ''b'') \<in> set (tested_pairs (tl (columns two_variables))) \<and>
   grangercausalitytests one_way_library
     (select_columns two_variables [Str ''a'', Str ''b'']) 3 = Inl ''singular matrix'' \<and>
   map_of (record_pair one_way_library two_variables 3 (Str ''a'') (Str ''b'') [])
     ''a causes b'' = Some (CausalityError ''Error: singular matrix'') \<and>
   map_of (granger_causality_analysis one_way_library two_variables 3) ''a causes b'' =
     Some (CausalityError ''Error: singular matrix'') \<and>
   map_of (granger_causality_analysis one_way_library two_variables 3) ''b causes a'' =
     Some (PValues [1 / 100, 1 / 100, 1 / 100])"
proof -
  have t: "tested_pairs (tl (columns two_variables)) =
             [(Str ''a'', Str ''b''), (Str ''b'', Str ''a'')]"
    by (simp add: tested_pairs_def two_variables_def py_ne_def)
  have m: "(Str ''a'', Str ''b'') \<in> set (tested_pairs (tl (columns two_variables)))"
    unfolding t by simp
  have m2: "(Str ''b'', Str ''a'') \<in> set (tested_pairs (tl (columns two_variables)))"
    unfolding t by simp
  have r: "grangercausalitytests one_way_library
             (select_columns two_variables [Str ''a'', Str ''b'']) 3 = Inl ''singular matrix''"
    by (simp add: one_way_library_def one_way_test_def select_columns_def two_variables_def)
  have u: "\<forall>q \<in> set (tested_pairs (tl (columns two_variables))).
             pair_key one_way_library (fst q) (snd q) =
               pair_key one_way_library (Str ''a'') (Str ''b'') \<longrightarrow>
             q = (Str ''a'', Str ''b'')"
    unfolding t by (simp add: pair_key_def label_str_def)
  have u2: "\<forall>q \<in> set (tested_pairs (tl (columns two_variables))).
             pair_key one_way_library (fst q) (snd q) =
               pair_key one_way_library (fst (Str ''b'', Str ''a'')) (snd (Str ''b'', Str ''a''))
             \<longrightarrow> q = (Str ''b'', Str ''a'')"
    unfolding t by (simp add: pair_key_def label_str_def)
  have k1: "pair_key one_way_library (Str ''a'') (Str ''b'') = ''a causes b''"
    by (simp add: pair_key_def label_str_def)
  have k2: "pair_key one_way_library (fst (Str ''b'', Str ''a'')) (snd (Str ''b'', Str ''a'')) =
              ''b causes a''"
    by (simp add: pair_key_def label_str_def)
  have v2: "test_pair one_way_library two_variables 3 (fst (Str ''b'', Str ''a''))
              (snd (Str ''b'', Str ''a'')) = PValues [1 / 100, 1 / 100, 1 / 100]"
    by (simp add: test_pair_def one_way_library_def one_way_test_def select_columns_def
        two_variables_def py_round4_def upto.simps)
  note th = failure_is_recorded [OF m r, of "[]"]
  have s: "map_of (record_pair one_way_library two_variables 3 (Str ''a'') (Str ''b'') [])
             ''a causes b'' = Some (CausalityError ''Error: singular matrix'')"
    using conjunct1 [OF th] unfolding k1 by simp
  have a: "map_of (granger_causality_analysis one_way_library two_variables 3) ''a causes b'' =
             Some (CausalityError ''Error: singular matrix'')"
    using conjunct1 [OF conjunct2 [OF th]] u unfolding k1 by simp
  have "map_of (granger_causality_analysis one_way_library two_variables 3)
          (pair_key one_way_library (fst (Str ''b'', Str ''a'')) (snd (Str ''b'', Str ''a''))) =
        Some (test_pair one_way_library two_variables 3 (fst (Str ''b'', Str ''a''))
                (snd (Str ''b'', Str ''a'')))"
    using conjunct2 [OF conjunct2 [OF th]] m2 u2 by blast
  then have b: "map_of (granger_causality_analysis one_way_library two_variables 3)
                  ''b causes a'' = Some (PValues [1 / 100, 1 / 100, 1 / 100])"
    unfolding k2 v2 .
  show ?thesis using m r s a b by blast
qed

text \<open>C4 as stated fails: the primitive raises for the pair \<^verbatim>\<open>a\<close>, \<^verbatim>\<open>a causes a\<close>, the
  opposite pair has the same key and passes, and the one entry holds its p-values.\<close>

theorem failure_overwritten_counterexample:
  "grangercausalitytests one_way_library
     (select_columns colliding_labels [Str ''a'', Str ''a causes a'']) 3 =
     Inl ''singular matrix'' \<and>
   pair_key one_way_library (Str ''a'') (Str ''a causes a'') = ''a causes a causes a'' \<and>
   granger_causality_analysis one_way_library colliding_labels 3 =
     [(''a causes a causes a'', PValues [1 / 100, 1 / 100, 1 / 100])]"
  by (simp add: colliding_labels_def one_way_library_def one_way_test_def sample_library_def
      causality_defs py_round4_def upto.simps)

text \<open>
  C10. With at most one label after the first, the two loops have no pair of different
  variables to test, and \<^verbatim>\<open>granger_causality_analysis\<close> should return the empty
  dictionary. The code skips the pair of a variable with itself by \<^verbatim>\<open>var1 != var2\<close>,
  which does not hold back a label that is NaN: the sheet \<open>blank_header\<close> cleans to a frame
  with the one variable NaN, and the analysis gives it the entry \<^verbatim>\<open>nan causes nan\<close>.
\<close>

theorem missing_label_self_pair:
  "robust_clean_data sample_library blank_header = Inr missing_label \<and>
   length (columns missing_label) = 2 \<and>
   granger_causality_analysis sample_library missing_label 3 =
     [(''nan causes nan'', CausalityError ''Error: Insufficient observations'')]"
proof -
  have "robust_clean_data sample_library blank_header = Inr missing_label" by code_simp
  moreover have "granger_causality_analysis sample_library missing_label 3 =
     [(''nan causes nan'', CausalityError ''Error: Insufficient observations'')]"
    by (simp add: missing_label_def sample_library_def causality_defs)
  ultimately show ?thesis by (simp add: missing_label_def)
qed

text \<open>For every other label the dictionary is empty, as C10 says.\<close>

lemma no_pair_no_entry:
  assumes "length (columns data) \<le> 2" and "Null \<notin> set (tl (columns data))"
  shows "granger_causality_analysis L data max_lag = []"
proof (cases "tl (columns data)")
  case Nil
  then show ?thesis by (simp add: granger_causality_analysis_def)
next
  case (Cons v vs)
  then have "vs = []" using assms(1) by (cases "columns data") auto
  moreover have "v \<noteq> Null" using assms(2) Cons by auto
  ultimately show ?thesis
    using Cons by (simp add: granger_causality_analysis_def record_pair_def py_ne_def)
qed

lemma no_pair_no_entry_example:
  "length (columns one_variable) \<le> 2 \<and> Null \<notin> set (tl (columns one_variable)) \<and>
   granger_causality_analysis sample_library one_variable 3 = []"
proof -
  have l: "length (columns one_variable) \<le> 2" by (simp add: one_variable_def)
  have n: "Null \<notin> set (tl (columns one_variable))" by (simp add: one_variable_def)
  show ?thesis using l n no_pair_no_entry [OF l n, of sample_library 3] by simp
qed

section \<open>The pipeline\<close>

lemma numbers_of_numeric:
  "\<forall>x \<in> set cs. num_of x \<noteq> None \<Longrightarrow> \<exists>hs. numbers_of cs = Inr hs"
  by (simp add: numbers_of_def list_all_iff)

lemma historical_numeric:
  assumes "cleaned data" and "historical_data data variable = Inr hist"
  shows "\<forall>x \<in> set (concat hist). num_of x \<noteq> None"
proof
  fix x assume "x \<in> set (concat hist)"
  then obtain h where h: "h \<in> set hist" "x \<in> set h" by auto
  have "hist = rows (dropna (select_columns data [variable]))"
    using assms(2) by (auto simp: historical_data_def split: if_splits)
  then obtain r where r: "r \<in> set (rows data)" "h = cells_at (columns data) r variable"
    using h(1) by (auto simp: dropna_def select_columns_def)
  have "x \<in> set r" using h(2) r(2) cells_at_subset by blast
  then show "num_of x \<noteq> None" using assms(1) r(1) by (auto simp: cleaned_def list_all_iff)
qed

lemma monte_carlo_simulation_returns:
  assumes "cleaned data" and "variable \<in> set (columns data)"
    and "0 \<le> num_simulations" and "0 \<le> forecast_period"
  shows "\<exists>res g1. monte_carlo_simulation L data variable num_simulations forecast_period g =
                    Inr (res, g1)"
proof -
  obtain hist where hist: "historical_data data variable = Inr hist"
    using assms(2) by (simp add: historical_data_def)
  obtain hs where hs: "numbers_of (concat hist) = Inr hs"
    using numbers_of_numeric [OF historical_numeric [OF assms(1) hist]] by blast
  show ?thesis
    using hist hs assms(3,4)
    by (auto simp: monte_carlo_simulation_def Let_def split: prod.splits)
qed

lemma simulate_variables_returns:
  assumes "cleaned data" and "0 \<le> num_simulations" and "0 \<le> forecast_period"
  shows "\<exists>res g1. simulate_variables L data num_simulations forecast_period vars results g =
                    Inr (res, g1)"
proof (induction vars arbitrary: results g)
  case Nil
  show ?case by simp
next
  case (Cons var vars)
  show ?case
  proof (cases "Str var \<in> set (columns data)")
    case False
    then show ?thesis using Cons.IH by simp
  next
    case True
    obtain res g1 where m:
      "monte_carlo_simulation L data (Str var) num_simulations forecast_period g = Inr (res, g1)"
      using monte_carlo_simulation_returns [OF assms(1) True assms(2,3), where L = L and g = g]
      by blast
    show ?thesis
    proof (cases res)
      case None
      then show ?thesis using True m Cons.IH by simp
    next
      case (Some t)
      obtain a b c where "t = (a, b, c)" by (cases t)
      then show ?thesis using True m Some Cons.IH by simp
    qed
  qed
qed

lemma analyze_sheet_returns:
  assumes "rect df" and "robust_clean_data L df = Inr c"
    and "0 \<le> num_simulations" and "0 \<le> forecast_period"
  shows "\<exists>r g1. analyze_sheet L key_variables max_lag num_simulations forecast_period df g =
                  Inr (r, g1)"
proof (cases "validate_data c 10")
  case False
  then show ?thesis using assms(2) by (simp add: analyze_sheet_def)
next
  case True
  obtain res g1 where
    "simulate_variables L c num_simulations forecast_period key_variables [] g = Inr (res, g1)"
    using simulate_variables_returns [OF robust_clean_data_cleaned [OF assms(1,2)] assms(3,4),
        where L = L and vars = key_variables and results = "[]" and g = g]
    by blast
  then show ?thesis using assms(2) True by (simp add: analyze_sheet_def)
qed

lemma analyze_sheet_cleans:
  "analyze_sheet L key_variables max_lag num_simulations forecast_period df g = Inr (r, g1) \<Longrightarrow>
   \<exists>c. robust_clean_data L df = Inr c"
  by (auto simp: analyze_sheet_def split: sum.splits)

lemma analyze_sheet_invalid:
  assumes "robust_clean_data L df = Inr c" and "\<not> validate_data c 10"
  shows "analyze_sheet L key_variables max_lag num_simulations forecast_period df g =
           Inr (SheetError ''Insufficient data for analysis'', g)"
  using assms by (simp add: analyze_sheet_def)

lemma analyze_loop_keeps:
  "analyze_loop L kv ml ns fp sheets results g = Inr (report, g1) \<Longrightarrow>
   k \<notin> fst ` set sheets \<Longrightarrow> map_of report k = map_of results k"
proof (induction sheets arbitrary: results g)
  case Nil
  then show ?case by simp
next
  case (Cons p sheets)
  obtain s d where p: "p = (s, d)" by (cases p)
  obtain r g' where a: "analyze_sheet L kv ml ns fp d g = Inr (r, g')"
    "analyze_loop L kv ml ns fp sheets (AList.update s r results) g' = Inr (report, g1)"
    using Cons.prems(1) p by (auto split: sum.splits)
  have "map_of report k = map_of (AList.update s r results) k"
    using Cons.IH [OF a(2)] Cons.prems(2) by simp
  then show ?case using Cons.prems(2) p by (simp add: update_conv')
qed

lemma analyze_loop_entry:
  "analyze_loop L kv ml ns fp sheets results g = Inr (report, g1) \<Longrightarrow>
   distinct (map fst sheets) \<Longrightarrow> (sheet, df) \<in> set sheets \<Longrightarrow>
   \<exists>g0 r g0'. analyze_sheet L kv ml ns fp df g0 = Inr (r, g0') \<and> map_of report sheet = Some r"
proof (induction sheets arbitrary: results g)
  case Nil
  then show ?case by simp
next
  case (Cons p sheets)
  obtain s d where p: "p = (s, d)" by (cases p)
  obtain r g' where a: "analyze_sheet L kv ml ns fp d g = Inr (r, g')"
    "analyze_loop L kv ml ns fp sheets (AList.update s r results) g' = Inr (report, g1)"
    using Cons.prems(1) p by (auto split: sum.splits)
  show ?case
  proof (cases "(sheet, df) = (s, d)")
    case True
    have "s \<notin> fst ` set sheets" using Cons.prems(2) p by simp
    then have "map_of report s = map_of (AList.update s r results) s"
      using analyze_loop_keeps [OF a(2)] by blast
    then have "map_of report s = Some r" by (simp add: update_conv')
    then show ?thesis using True a(1) by blast
  next
    case False
    then have "(sheet, df) \<in> set sheets" using Cons.prems(3) p by auto
    then show ?thesis using Cons.IH [OF a(2)] Cons.prems(2) by simp
  qed
qed

lemma analyze_loop_keys:
  "analyze_loop L kv ml ns fp sheets results g = Inr (report, g1) \<Longrightarrow>
   distinct (map fst sheets) \<Longrightarrow> fst ` set results \<inter> fst ` set sheets = {} \<Longrightarrow>
   map fst report = map fst results @ map fst sheets"
proof (induction sheets arbitrary: results g)
  case Nil
  then show ?case by simp
next
  case (Cons p sheets)
  obtain s d where p: "p = (s, d)" by (cases p)
  obtain r g' where a: "analyze_sheet L kv ml ns fp d g = Inr (r, g')"
    "analyze_loop L kv ml ns fp sheets (AList.update s r results) g' = Inr (report, g1)"
    using Cons.prems(1) p by (auto split: sum.splits)
  have fresh: "s \<notin> fst ` set results" using Cons.prems(3) p by auto
  have u: "AList.update s r results = results @ [(s, r)]" using update_fresh [OF fresh] .
  have "fst ` set (results @ [(s, r)]) \<inter> fst ` set sheets = {}"
    using Cons.prems(2,3) p by auto
  then have "map fst report = map fst (results @ [(s, r)]) @ map fst sheets"
    using Cons.IH [OF a(2) [unfolded u]] Cons.prems(2) by simp
  then show ?case using p by simp
qed

lemma analyze_loop_returns:
  "list_all (\<lambda>p. rect (snd p) \<and> (\<exists>c. robust_clean_data L (snd p) = Inr c)) sheets \<Longrightarrow>
   0 \<le> ns \<Longrightarrow> 0 \<le> fp \<Longrightarrow>
   \<exists>report g1. analyze_loop L kv ml ns fp sheets results g = Inr (report, g1)"
proof (induction sheets arbitrary: results g)
  case Nil
  show ?case by simp
next
  case (Cons p sheets)
  obtain s d where p: "p = (s, d)" by (cases p)
  obtain c where c: "rect d" "robust_clean_data L d = Inr c" using Cons.prems(1) p by auto
  obtain r g' where a: "analyze_sheet L kv ml ns fp d g = Inr (r, g')"
    using analyze_sheet_returns [OF c Cons.prems(2,3), where key_variables = kv
        and max_lag = ml and g = g] by blast
  have "\<exists>report g1. analyze_loop L kv ml ns fp sheets (AList.update s r results) g' =
                      Inr (report, g1)"
    using Cons.IH Cons.prems by simp
  then show ?case using a p by simp
qed

lemma analyze_loop_cleans:
  "analyze_loop L kv ml ns fp sheets results g = Inr (report, g1) \<Longrightarrow>
   list_all (\<lambda>p. \<exists>c. robust_clean_data L (snd p) = Inr c) sheets"
proof (induction sheets arbitrary: results g)
  case Nil
  show ?case by simp
next
  case (Cons p sheets)
  obtain s d where p: "p = (s, d)" by (cases p)
  obtain r g' where a: "analyze_sheet L kv ml ns fp d g = Inr (r, g')"
    "analyze_loop L kv ml ns fp sheets (AList.update s r results) g' = Inr (report, g1)"
    using Cons.prems(1) p by (auto split: sum.splits)
  show ?case using analyze_sheet_cleans [OF a(1)] Cons.IH [OF a(2)] p by simp
qed

text \<open>
  C7. \<^verbatim>\<open>validate_data\<close> is true exactly when at least \<open>min_rows\<close> rows are left after the rows
  with a missing value are dropped. When the cleaned frame of a sheet fails it for the
  default 10, the sheet's result is the text \<^verbatim>\<open>Insufficient data for analysis\<close> under
  \<^verbatim>\<open>Error\<close>, whatever the library's causality primitive and generator are, and the
  generator is left as it was: neither analysis runs. The report of a run that returns
  holds that result for the sheet.
\<close>

theorem validation_gate:
  "(\<forall>f min_rows. validate_data f min_rows \<longleftrightarrow>
      min_rows \<le> int (length (filter (\<lambda>r. Null \<notin> set r) (rows f)))) \<and>
   (robust_clean_data L df = Inr c \<and> \<not> validate_data c 10 \<longrightarrow>
      analyze_sheet L key_variables max_lag num_simulations forecast_period df g =
        Inr (SheetError ''Insufficient data for analysis'', g) \<and>
      (\<forall>sheets_data sheet g0 report g1.
         distinct (map fst sheets_data) \<and> (sheet, df) \<in> set sheets_data \<and>
         analyze_sheets L sheets_data key_variables max_lag num_simulations forecast_period g0 =
           Inr (report, g1) \<longrightarrow>
         map_of report sheet = Some (SheetError ''Insufficient data for analysis'')))"
proof (intro conjI allI impI)
  fix f min_rows
  show "validate_data f min_rows \<longleftrightarrow>
          min_rows \<le> int (length (filter (\<lambda>r. Null \<notin> set r) (rows f)))"
    by (simp add: validate_data_def dropna_def)
next
  assume a: "robust_clean_data L df = Inr c \<and> \<not> validate_data c 10"
  show "analyze_sheet L key_variables max_lag num_simulations forecast_period df g =
          Inr (SheetError ''Insufficient data for analysis'', g)"
    using a by (simp add: analyze_sheet_invalid)
next
  fix sheets_data sheet g0 report g1
  assume a: "robust_clean_data L df = Inr c \<and> \<not> validate_data c 10"
  assume b: "distinct (map fst sheets_data) \<and> (sheet, df) \<in> set sheets_data \<and>
         analyze_sheets L sheets_data key_variables max_lag num_simulations forecast_period g0 =
           Inr (report, g1)"
  have loop: "analyze_loop L key_variables max_lag num_simulations forecast_period sheets_data
                [] g0 = Inr (report, g1)"
    using b by (simp add: analyze_sheets_def)
  obtain g2 r g3 where r:
    "analyze_sheet L key_variables max_lag num_simulations forecast_period df g2 = Inr (r, g3)"
    "map_of report sheet = Some r"
    using analyze_loop_entry [OF loop, of sheet df] b by blast
  have "analyze_sheet L key_variables max_lag num_simulations forecast_period df g2 =
          Inr (SheetError ''Insufficient data for analysis'', g2)"
    using a by (simp add: analyze_sheet_invalid)
  then show "map_of report sheet = Some (SheetError ''Insufficient data for analysis'')"
    using r by simp
qed

theorem validation_gate_witness:
  "robust_clean_data sample_library mixed_sheet = Inr mixed_cleaned \<and>
   \<not> validate_data mixed_cleaned 10 \<and> validate_data mixed_cleaned 3 \<and>
   analyze_sheet sample_library [''A''] 3 1000 10 mixed_sheet (0::nat) =
     Inr (SheetError ''Insufficient data for analysis'', 0) \<and>
   analyze_sheets sample_library [(''Housing'', mixed_sheet)] [''A''] 3 1000 10 (0::nat) =
     Inr ([(''Housing'', SheetError ''Insufficient data for analysis'')], 0) \<and>
   map_of [(''Housing'', SheetError ''Insufficient data for analysis'')] ''Housing'' =
     Some (SheetError ''Insufficient data for analysis'')"
proof -
  have e: "robust_clean_data sample_library mixed_sheet = Inr mixed_cleaned" by code_simp
  have n: "\<not> validate_data mixed_cleaned 10" by code_simp
  have v: "validate_data mixed_cleaned 3" by code_simp
  note th = validation_gate [of sample_library mixed_sheet mixed_cleaned "[''A'']" 3 1000 10 0]
  have s: "analyze_sheet sample_library [''A''] 3 1000 10 mixed_sheet (0::nat) =
             Inr (SheetError ''Insufficient data for analysis'', 0)"
    using th e n by blast
  have r: "analyze_sheets sample_library [(''Housing'', mixed_sheet)] [''A''] 3 1000 10 (0::nat) =
             Inr ([(''Housing'', SheetError ''Insufficient data for analysis'')], 0)"
    by (simp add: analyze_sheets_def s)
  have d: "distinct (map fst [(''Housing'', mixed_sheet)]) \<and>
           (''Housing'', mixed_sheet) \<in> set [(''Housing'', mixed_sheet)]"
    by simp
  have m: "map_of [(''Housing'', SheetError ''Insufficient data for analysis'')] ''Housing'' =
             Some (SheetError ''Insufficient data for analysis'')"
    using th e n d r by blast
  show ?thesis using e n v s r m by blast
qed

text \<open>
  C1, as amended. For rectangular sheets under distinct identifiers and non-negative
  \<open>num_simulations\<close> and \<open>forecast_period\<close>, \<^verbatim>\<open>analyze_sheets\<close> returns a report exactly when
  \<^verbatim>\<open>robust_clean_data\<close> raises for none of the sheets; otherwise the exception ends the run.
  A report that is returned has one entry for each sheet identifier, in the order of the
  input.
\<close>

theorem analysis_report:
  assumes "distinct (map fst sheets_data)" and "list_all (\<lambda>p. rect (snd p)) sheets_data"
    and "0 \<le> num_simulations" and "0 \<le> forecast_period"
  shows "((\<exists>report g1. analyze_sheets L sheets_data key_variables max_lag num_simulations
                         forecast_period g = Inr (report, g1)) \<longleftrightarrow>
          list_all (\<lambda>p. \<exists>c. robust_clean_data L (snd p) = Inr c) sheets_data) \<and>
         (\<forall>report g1. analyze_sheets L sheets_data key_variables max_lag num_simulations
                         forecast_period g = Inr (report, g1) \<longrightarrow>
                       map fst report = map fst sheets_data)"
proof (intro conjI iffI allI impI)
  assume "\<exists>report g1. analyze_sheets L sheets_data key_variables max_lag num_simulations
                         forecast_period g = Inr (report, g1)"
  then obtain report g1 where
    "analyze_loop L key_variables max_lag num_simulations forecast_period sheets_data [] g =
       Inr (report, g1)"
    unfolding analyze_sheets_def by blast
  then show "list_all (\<lambda>p. \<exists>c. robust_clean_data L (snd p) = Inr c) sheets_data"
    by (rule analyze_loop_cleans)
next
  assume "list_all (\<lambda>p. \<exists>c. robust_clean_data L (snd p) = Inr c) sheets_data"
  then have "list_all (\<lambda>p. rect (snd p) \<and> (\<exists>c. robust_clean_data L (snd p) = Inr c))
               sheets_data"
    using assms(2) by (simp add: list_all_iff)
  then show "\<exists>report g1. analyze_sheets L sheets_data key_variables max_lag num_simulations
                         forecast_period g = Inr (report, g1)"
    unfolding analyze_sheets_def
    by (rule analyze_loop_returns [OF _ assms(3,4)])
next
  fix report g1
  assume "analyze_sheets L sheets_data key_variables max_lag num_simulations
            forecast_period g = Inr (report, g1)"
  then have "analyze_loop L key_variables max_lag num_simulations forecast_period sheets_data
                [] g = Inr (report, g1)"
    by (simp add: analyze_sheets_def)
  then show "map fst report = map fst sheets_data"
    using analyze_loop_keys [OF _ assms(1)] by fastforce
qed

theorem analysis_report_witness:
  "distinct (map fst [(''Housing'', housing_sheet), (''Names'', text_sheet)]) \<and>
   list_all (\<lambda>p. rect (snd p)) [(''Housing'', housing_sheet), (''Names'', text_sheet)] \<and>
   (\<exists>report g1.
      analyze_sheets sample_library [(''Housing'', housing_sheet), (''Names'', text_sheet)]
        [''Total housing units'', ''Occupied units''] 3 1000 10 (0::nat) = Inr (report, g1) \<and>
      map fst report = [''Housing'', ''Names''])"
proof -
  let ?sheets = "[(''Housing'', housing_sheet), (''Names'', text_sheet)]"
  have d: "distinct (map fst ?sheets)" by simp
  have r1: "rect housing_sheet" by (simp add: rect_def housing_sheet_def)
  have r2: "rect text_sheet" by (simp add: rect_def text_sheet_def)
  have r: "list_all (\<lambda>p. rect (snd p)) ?sheets" using r1 r2 by simp
  have h1: "rows housing_sheet = hd (rows housing_sheet) # tl (rows housing_sheet)"
    by (simp add: housing_sheet_def)
  have h2: "rows text_sheet = hd (rows text_sheet) # tl (rows text_sheet)"
    by (simp add: text_sheet_def)
  have c1: "\<exists>c. robust_clean_data sample_library housing_sheet = Inr c"
    by (rule robust_clean_data_returns [OF r1 h1]) (simp_all add: housing_sheet_def)
  have c2: "\<exists>c. robust_clean_data sample_library text_sheet = Inr c"
    by (rule robust_clean_data_returns [OF r2 h2]) (simp_all add: text_sheet_def)
  have c: "list_all (\<lambda>p. \<exists>c. robust_clean_data sample_library (snd p) = Inr c) ?sheets"
    using c1 c2 by simp
  note th = analysis_report [OF d r, of 1000 10 sample_library
      "[''Total housing units'', ''Occupied units'']" 3 0]
  obtain report g1 where a:
    "analyze_sheets sample_library ?sheets [''Total housing units'', ''Occupied units''] 3
       1000 10 (0::nat) = Inr (report, g1)"
    using th c by auto
  then have "map fst report = map fst ?sheets" using th by auto
  then show ?thesis using d r a by auto
qed

text \<open>C1 as stated fails: a sheet with labels and no row ends the run with IndexError,
  and the sheet after it gets no entry.\<close>

theorem analysis_raises_counterexample:
  "analyze_sheets sample_library [(''Empty'', header_only), (''Housing'', housing_sheet)]
     [''Total housing units'', ''Occupied units''] 3 1000 10 (0::nat) = Inl IndexError"
  by (simp add: analyze_sheets_def analyze_sheet_def robust_clean_data_def header_only_def)

end
